(* ===== verification/Prelude.thy ===== *)
theory Prelude
  imports Complex_Main
begin

text \<open>
  Shared vocabulary of the development: the JavaScript values and DOM primitives that
  the page script \<open>src/js/main.js\<close> and the checker \<open>src/tests/validate-html.js\<close>
  use.  An element's \<open>classList\<close> is a set of class names; \<open>parseInt(s, 10)\<close> is
  \<open>js_parse_int\<close>, returning \<open>None\<close> for \<open>NaN\<close>; \<open>String(n)\<close> of an integral
  number is \<open>js_int_str\<close>.  The lemmas here are the generic facts the component
  theories share; the round trip \<open>js_parse_int (js_int_str n) = Some n\<close> is proved
  here and used by the counter theory.
\<close>

named_theorems dom_simps \<open>rewrite rules for the DOM primitives\<close>
named_theorems js_simps \<open>rewrite rules for the JavaScript value helpers\<close>

type_synonym classes = "string set"
type_synonym html_id = string

subsection \<open>DOMTokenList (\<open>element.classList\<close>)\<close>

definition cl_add :: "string \<Rightarrow> classes \<Rightarrow> classes" where
  "cl_add c cs = insert c cs"

definition cl_remove :: "string \<Rightarrow> classes \<Rightarrow> classes" where
  "cl_remove c cs = cs - {c}"

text \<open>\<open>classList.toggle(c)\<close> returns whether \<open>c\<close> is present afterwards.\<close>

definition cl_toggle :: "string \<Rightarrow> classes \<Rightarrow> bool \<times> classes" where
  "cl_toggle c cs = (if c \<in> cs then (False, cs - {c}) else (True, insert c cs))"

lemma cl_add_mem [dom_simps]: "d \<in> cl_add c cs \<longleftrightarrow> d = c \<or> d \<in> cs"
  by (simp add: cl_add_def)

lemma cl_remove_mem [dom_simps]: "d \<in> cl_remove c cs \<longleftrightarrow> d \<noteq> c \<and> d \<in> cs"
  by (auto simp: cl_remove_def)

lemma cl_toggle_fst [dom_simps]: "fst (cl_toggle c cs) \<longleftrightarrow> c \<notin> cs"
  by (simp add: cl_toggle_def)

lemma cl_toggle_mem [dom_simps]:
  "d \<in> snd (cl_toggle c cs) \<longleftrightarrow> (if d = c then c \<notin> cs else d \<in> cs)"
  by (auto simp: cl_toggle_def)

lemma cl_toggle_twice [dom_simps]: "snd (cl_toggle c (snd (cl_toggle c cs))) = cs"
  by (auto simp: cl_toggle_def)

lemma cl_remove_add_same [dom_simps]: "cl_add c (cl_remove c cs) = cl_add c cs"
  by (auto simp: cl_add_def cl_remove_def)

subsection \<open>\<open>String(b)\<close> for booleans\<close>

definition js_bool_str :: "bool \<Rightarrow> string" where
  "js_bool_str b = (if b then ''true'' else ''false'')"

lemma js_bool_str_inj [js_simps]: "js_bool_str a = js_bool_str b \<longleftrightarrow> a = b"
  by (simp add: js_bool_str_def)

lemma js_bool_str_true [js_simps]: "js_bool_str b = ''true'' \<longleftrightarrow> b"
  by (simp add: js_bool_str_def)

subsection \<open>Decimal digits, \<open>String(n)\<close> and \<open>parseInt(s, 10)\<close>\<close>

definition is_digit :: "char \<Rightarrow> bool" where
  "is_digit c \<longleftrightarrow> (48::nat) \<le> of_char c \<and> (of_char c :: nat) \<le> 57"

definition digit_val :: "char \<Rightarrow> int" where
  "digit_val c = int (of_char c) - 48"

definition digit_char :: "nat \<Rightarrow> char" where
  "digit_char d = char_of (48 + d)"

fun nat_str :: "nat \<Rightarrow> string" where
  "nat_str n = (if n < 10 then [digit_char n] else nat_str (n div 10) @ [digit_char (n mod 10)])"

declare nat_str.simps [simp del]

text \<open>\<open>String(n)\<close> for an integral number (the sign, then the decimal digits).\<close>

definition js_int_str :: "int \<Rightarrow> string" where
  "js_int_str i = (if i < 0 then CHR ''-'' # nat_str (nat (- i)) else nat_str (nat i))"

text \<open>The text of a number that may be \<open>NaN\<close> (\<open>None\<close>).\<close>

definition js_num_text :: "int option \<Rightarrow> string" where
  "js_num_text v = (case v of None \<Rightarrow> ''NaN'' | Some i \<Rightarrow> js_int_str i)"

text \<open>
  \<open>StrWhiteSpaceChar\<close> restricted to the one-byte characters: tab, line feed,
  vertical tab, form feed, carriage return and space.
\<close>

definition js_ws :: "char \<Rightarrow> bool" where
  "js_ws c \<longleftrightarrow> of_char c \<in> {9, 10, 11, 12, 13, 32 :: nat}"

definition digits_val :: "string \<Rightarrow> int" where
  "digits_val ds = foldl (\<lambda>acc c. 10 * acc + digit_val c) 0 ds"

text \<open>
  \<open>parseInt(s, 10)\<close> (ECMA-262 \<section>19.2.5): drop leading white space, read one
  optional sign, then the longest prefix of decimal digits; no digit is \<open>NaN\<close>.
\<close>

definition js_parse_int :: "string \<Rightarrow> int option" where
  "js_parse_int s =
     (let s1 = dropWhile js_ws s;
          (sg, s2) = (case s1 of
                        [] \<Rightarrow> (1, [])
                      | c # r \<Rightarrow> if c = CHR ''-'' then (-1, r)
                                 else if c = CHR ''+'' then (1, r) else (1, s1));
          z = takeWhile is_digit s2
      in if z = [] then None else Some (sg * digits_val z))"

lemma digit_char_is_digit [js_simps]: "d < 10 \<Longrightarrow> is_digit (digit_char d)"
  by (simp add: is_digit_def digit_char_def)

lemma digit_val_digit_char [js_simps]: "d < 10 \<Longrightarrow> digit_val (digit_char d) = int d"
  by (simp add: digit_val_def digit_char_def)

lemma digit_char_not_ws [js_simps]: "d < 10 \<Longrightarrow> \<not> js_ws (digit_char d)"
  by (auto simp: js_ws_def digit_char_def)

lemma digit_char_not_sign [js_simps]:
  "d < 10 \<Longrightarrow> digit_char d \<noteq> CHR ''-'' \<and> digit_char d \<noteq> CHR ''+''"
proof -
  assume "d < 10"
  then have "of_char (digit_char d) \<ge> (48::nat)"
    by (simp add: digit_char_def)
  moreover have "of_char (CHR ''-'') = (45::nat)" and "of_char (CHR ''+'') = (43::nat)"
    by simp_all
  ultimately show ?thesis by auto
qed

lemma digits_val_snoc [js_simps]: "digits_val (xs @ [c]) = 10 * digits_val xs + digit_val c"
  by (simp add: digits_val_def)

lemma nat_str_digits: "\<forall>c \<in> set (nat_str n). \<exists>d < 10. c = digit_char d"
proof (induction n rule: nat_str.induct)
  case (1 n)
  have "n mod 10 < 10" by simp
  with "1" show ?case by (subst nat_str.simps) (auto intro!: exI [of _ "n mod 10"])
qed
lemma nat_str_all_digits [js_simps]: "\<forall>c \<in> set (nat_str n). is_digit c"
proof
  fix c
  assume "c \<in> set (nat_str n)"
  then obtain d where "d < 10" and "c = digit_char d"
    using nat_str_digits [of n] by blast
  then show "is_digit c" by (simp add: digit_char_is_digit)
qed
lemma nat_str_nonempty [js_simps]: "nat_str n \<noteq> []"
  by (subst nat_str.simps) simp
lemma nat_str_hd: "\<exists>d < 10. \<exists>r. nat_str n = digit_char d # r"
proof -
  obtain c r where cr: "nat_str n = c # r"
    using nat_str_nonempty by (cases "nat_str n") auto
  then have "c \<in> set (nat_str n)" by simp
  then obtain d where "d < 10" and "c = digit_char d" using nat_str_digits [of n] by blast
  with cr show ?thesis by blast
qed
lemma int_div_mod_10: "10 * int (n div 10) + int (n mod 10) = int n"
  by (metis div_mult_mod_eq mult.commute of_nat_add of_nat_mult of_nat_numeral)
lemma digits_val_nat_str [js_simps]: "digits_val (nat_str n) = int n"
proof (induction n rule: nat_str.induct)
  case (1 n)
  show ?case
  proof (cases "n < 10")
    case True
    then show ?thesis
      by (simp add: nat_str.simps [of n] digits_val_def digit_val_digit_char)
  next
    case False
    with "1" have "digits_val (nat_str (n div 10)) = int (n div 10)" by simp
    then show ?thesis using False int_div_mod_10 [of n]
      by (simp add: nat_str.simps [of n] digits_val_snoc digit_val_digit_char)
  qed
qed
lemma takeWhile_nat_str [js_simps]: "takeWhile is_digit (nat_str n) = nat_str n"
  using nat_str_all_digits by (simp add: takeWhile_eq_all_conv)
lemma dropWhile_ws_nat_str [js_simps]: "dropWhile js_ws (nat_str n) = nat_str n"
  using nat_str_hd [of n] digit_char_not_ws by auto
lemma nat_str_sign_free [js_simps]:
  "nat_str n = c # r \<Longrightarrow> c \<noteq> CHR ''-'' \<and> c \<noteq> CHR ''+''"
  using nat_str_hd [of n] digit_char_not_sign by auto
lemma js_parse_int_nat_str [js_simps]: "js_parse_int (nat_str n) = Some (int n)"
proof -
  obtain c r where cr: "nat_str n = c # r"
    using nat_str_nonempty by (cases "nat_str n") auto
  then have sg: "c \<noteq> CHR ''-'' \<and> c \<noteq> CHR ''+''" by (rule nat_str_sign_free)
  have dg: "is_digit c" using nat_str_all_digits [of n] cr by simp
  have "js_parse_int (nat_str n) = Some (digits_val (takeWhile is_digit (nat_str n)))"
    unfolding js_parse_int_def Let_def dropWhile_ws_nat_str
    using sg dg by (simp add: cr)
  then show ?thesis by (simp add: takeWhile_nat_str digits_val_nat_str)
qed

lemma distinct_map_filter_le1:
  "distinct (map f xs) \<Longrightarrow> length (filter (\<lambda>x. f x = a) xs) \<le> 1"
proof (induction xs)
  case Nil
  then show ?case by simp
next
  case (Cons x xs)
  then show ?case
    by (auto simp: filter_empty_conv image_iff)
qed

lemma js_parse_int_int_str [js_simps]: "js_parse_int (js_int_str i) = Some i"
proof (cases "i < 0")
  case True
  obtain c r where cr: "nat_str (nat (- i)) = c # r"
    using nat_str_nonempty by (cases "nat_str (nat (- i))") auto
  have "\<not> js_ws (CHR ''-'')" by (simp add: js_ws_def)
  then have "js_parse_int (js_int_str i) =
      Some (- digits_val (takeWhile is_digit (nat_str (nat (- i)))))"
    using True nat_str_nonempty [of "nat (- i)"] nat_str_all_digits [of "nat (- i)"]
    by (simp add: js_parse_int_def js_int_str_def Let_def cr)
  with True show ?thesis by (simp add: takeWhile_nat_str digits_val_nat_str)
next
  case False
  then show ?thesis by (simp add: js_int_str_def js_parse_int_nat_str)
qed

end
