(* ===== verification/Navigation.thy ===== *)
theory Navigation
  imports Prelude
begin

text \<open>
  The navigation controller, \<open>initNavigation\<close> in \<open>src/js/main.js\<close> (lines 12--73).
  The state is the part of the DOM the controller writes (the classes of the navbar,
  of the mobile toggle, of the link list and of each link, and the toggle's
  \<open>aria-expanded\<close>) together with the page layout it reads (the sections with an id
  and their offsets) and which listeners \<open>initNavigation\<close> installed.  Every
  listener is one function; \<open>nav_step\<close> dispatches a browser event to the listeners
  installed for it, in registration order.
\<close>

record nav_link =
  href :: string
  link_cls :: classes

record nav_section =
  sec_id :: html_id
  offset_top :: int
  offset_height :: int

record nav_state =
  scroll_wired :: bool
  menu_wired :: bool
  navbar_cls :: classes
  toggle_cls :: classes
  toggle_aria :: string
  menu_cls :: classes
  links :: "nav_link list"
  sections :: "nav_section list"

subsection \<open>Listeners\<close>

text \<open>\<open>handleScroll\<close> (lines 20--26).\<close>

definition handle_scroll :: "real \<Rightarrow> nav_state \<Rightarrow> nav_state" where
  "handle_scroll y s =
     (if y > 50 then s\<lparr>navbar_cls := cl_add ''scrolled'' (navbar_cls s)\<rparr>
      else s\<lparr>navbar_cls := cl_remove ''scrolled'' (navbar_cls s)\<rparr>)"

text \<open>The toggle's click listener (lines 33--37).\<close>

definition toggle_click :: "nav_state \<Rightarrow> nav_state" where
  "toggle_click s =
     (let (is_open, mc) = cl_toggle ''open'' (menu_cls s);
          tc = snd (cl_toggle ''active'' (toggle_cls s))
      in s\<lparr>menu_cls := mc, toggle_cls := tc, toggle_aria := js_bool_str is_open\<rparr>)"

text \<open>The click listener of every link of the menu (lines 42--46).\<close>

definition link_click_close :: "nav_state \<Rightarrow> nav_state" where
  "link_click_close s =
     s\<lparr>menu_cls := cl_remove ''open'' (menu_cls s),
       toggle_cls := cl_remove ''active'' (toggle_cls s),
       toggle_aria := ''false''\<rparr>"

text \<open>The inner loop of \<open>highlightNav\<close> over the links (lines 61--67).\<close>

definition mark_link :: "html_id \<Rightarrow> nav_link \<Rightarrow> nav_link" where
  "mark_link i l =
     (let c = cl_remove ''active'' (link_cls l)
      in l\<lparr>link_cls := (if href l = CHR ''#'' # i then cl_add ''active'' c else c)\<rparr>)"

definition mark_links :: "html_id \<Rightarrow> nav_link list \<Rightarrow> nav_link list" where
  "mark_links i ls = map (mark_link i) ls"

definition in_section :: "real \<Rightarrow> nav_section \<Rightarrow> bool" where
  "in_section pos sec \<longleftrightarrow>
     of_int (offset_top sec) \<le> pos \<and> pos < of_int (offset_top sec + offset_height sec)"

text \<open>The outer loop of \<open>highlightNav\<close> over the sections (lines 54--69).\<close>

fun highlight_loop :: "real \<Rightarrow> nav_section list \<Rightarrow> nav_link list \<Rightarrow> nav_link list" where
  "highlight_loop pos [] ls = ls"
| "highlight_loop pos (sec # secs) ls =
     highlight_loop pos secs (if in_section pos sec then mark_links (sec_id sec) ls else ls)"

text \<open>\<open>highlightNav\<close> (lines 52--70): \<open>scrollPos = window.scrollY + 200\<close>.\<close>

definition highlight_nav :: "real \<Rightarrow> nav_state \<Rightarrow> nav_state" where
  "highlight_nav y s = s\<lparr>links := highlight_loop (y + 200) (sections s) (links s)\<rparr>"

subsection \<open>Initialisation and event dispatch\<close>

text \<open>
  \<open>initNavigation\<close> (lines 12--73): without a navbar nothing is installed; otherwise
  both scroll listeners are installed and \<open>handleScroll\<close> runs once at the current
  offset \<open>y\<close>; the menu listeners need both the toggle and the link list.
  \<open>links\<close> holds the anchors of \<open>#nav-links\<close>, which \<open>highlightNav\<close> walks
  (line 61); without \<open>#nav-links\<close> it walks none.
\<close>

definition init_navigation :: "bool \<Rightarrow> bool \<Rightarrow> bool \<Rightarrow> real \<Rightarrow> nav_state \<Rightarrow> nav_state" where
  "init_navigation has_navbar has_toggle has_links y s =
     (if \<not> has_navbar then s\<lparr>scroll_wired := False, menu_wired := False\<rparr>
      else handle_scroll y (s\<lparr>scroll_wired := True, menu_wired := (has_toggle \<and> has_links),
                                links := (if has_links then links s else [])\<rparr>))"

datatype nav_event = Scroll real | ToggleClick | LinkClick nat

text \<open>
  A scroll event runs \<open>handleScroll\<close> and then \<open>highlightNav\<close> (registration order,
  lines 28 and 72); a click on the \<open>i\<close>-th link of the menu runs the closing listener.
\<close>

fun nav_step :: "nav_state \<Rightarrow> nav_event \<Rightarrow> nav_state" where
  "nav_step s (Scroll y) = (if scroll_wired s then highlight_nav y (handle_scroll y s) else s)"
| "nav_step s ToggleClick = (if menu_wired s then toggle_click s else s)"
| "nav_step s (LinkClick i) =
     (if menu_wired s \<and> i < length (links s) then link_click_close s else s)"

definition nav_run :: "nav_state \<Rightarrow> nav_event list \<Rightarrow> nav_state" where
  "nav_run s evs = foldl nav_step s evs"

inductive nav_reach :: "nav_state \<Rightarrow> nav_state \<Rightarrow> bool" where
  nav_refl: "nav_reach s s"
| nav_next: "nav_reach s t \<Longrightarrow> nav_reach s (nav_step t e)"

subsection \<open>Specifications\<close>

text \<open>The menu state and its two mirrors agree: the toggle is active and
  \<open>aria-expanded\<close> is \<open>"true"\<close> exactly when the list is open.\<close>

definition menu_consistent :: "nav_state \<Rightarrow> bool" where
  "menu_consistent s \<longleftrightarrow>
     (''active'' \<in> toggle_cls s \<longleftrightarrow> ''open'' \<in> menu_cls s) \<and>
     toggle_aria s = js_bool_str (''open'' \<in> menu_cls s)"

text \<open>Reference semantics of \<open>highlightNav\<close>: the last section (in document order)
  that holds the scroll position decides the active link; if none does, nothing
  changes.\<close>

definition highlight_ref :: "real \<Rightarrow> nav_section list \<Rightarrow> nav_link list \<Rightarrow> nav_link list" where
  "highlight_ref pos secs ls =
     (case filter (in_section pos) secs of
        [] \<Rightarrow> ls
      | ms \<Rightarrow> mark_links (sec_id (last ms)) ls)"

text \<open>A page whose toggle starts closed, as \<open>index.html\<close> ships it, with two sections
  and two links; it serves as the concrete input of the witnesses below.\<close>

definition demo_nav :: nav_state where
  "demo_nav =
     \<lparr>scroll_wired = True, menu_wired = True, navbar_cls = {}, toggle_cls = {},
      toggle_aria = ''false'', menu_cls = {},
      links = [\<lparr>href = ''#about'', link_cls = {}\<rparr>, \<lparr>href = ''#skills'', link_cls = {''active''}\<rparr>],
      sections = [\<lparr>sec_id = ''about'', offset_top = 0, offset_height = 500\<rparr>,
                  \<lparr>sec_id = ''skills'', offset_top = 500, offset_height = 400\<rparr>]\<rparr>"

subsection \<open>Lemmas\<close>

lemmas nav_defs = handle_scroll_def toggle_click_def link_click_close_def highlight_nav_def

lemma mark_link_href [simp]: "href (mark_link i l) = href l"
  by (simp add: mark_link_def Let_def)

lemma mark_link_twice [simp]: "mark_link i (mark_link j l) = mark_link i l"
  by (auto simp: mark_link_def Let_def cl_add_def cl_remove_def)

lemma mark_links_twice [simp]: "mark_links i (mark_links j ls) = mark_links i ls"
  by (simp add: mark_links_def)

lemma length_mark_links [simp]: "length (mark_links i ls) = length ls"
  by (simp add: mark_links_def)

lemma mark_link_active:
  "''active'' \<in> link_cls (mark_link i l) \<longleftrightarrow> href l = CHR ''#'' # i"
  by (simp add: mark_link_def Let_def dom_simps)

lemma mark_link_other:
  "c \<noteq> ''active'' \<Longrightarrow> c \<in> link_cls (mark_link i l) \<longleftrightarrow> c \<in> link_cls l"
  by (auto simp: mark_link_def Let_def dom_simps)

lemma highlight_loop_eq_ref: "highlight_loop pos secs ls = highlight_ref pos secs ls"
proof (induction secs arbitrary: ls)
  case Nil
  then show ?case by (simp add: highlight_ref_def)
next
  case (Cons sec secs)
  show ?case
  proof (cases "in_section pos sec")
    case True
    with Cons.IH show ?thesis
      by (auto simp: highlight_ref_def split: list.splits)
  next
    case False
    with Cons.IH show ?thesis
      by (simp add: highlight_ref_def)
  qed
qed

lemma highlight_loop_length [simp]: "length (highlight_loop pos secs ls) = length ls"
  by (simp add: highlight_loop_eq_ref highlight_ref_def split: list.splits)

lemma nav_step_sections [simp]: "sections (nav_step s e) = sections s"
  by (cases e) (simp_all add: nav_defs Let_def split: prod.splits)

lemma nav_step_wiring [simp]:
  "scroll_wired (nav_step s e) = scroll_wired s \<and> menu_wired (nav_step s e) = menu_wired s"
  by (cases e) (simp_all add: nav_defs Let_def split: prod.splits)

lemma nav_step_length_links [simp]: "length (links (nav_step s e)) = length (links s)"
  by (cases e) (simp_all add: nav_defs Let_def split: prod.splits)

lemma highlight_nav_links:
  "links (highlight_nav y s) = highlight_ref (y + 200) (sections s) (links s)"
  by (simp add: highlight_nav_def highlight_loop_eq_ref)

lemma highlight_nav_matched:
  "filter (in_section (y + 200)) (sections s) = ms \<Longrightarrow> ms \<noteq> [] \<Longrightarrow>
   links (highlight_nav y s) = mark_links (sec_id (last ms)) (links s)"
  by (simp add: highlight_nav_links highlight_ref_def split: list.splits)

lemma nav_step_menu_consistent: "menu_consistent s \<Longrightarrow> menu_consistent (nav_step s e)"
proof (cases e)
  case ToggleClick
  assume "menu_consistent s"
  then show ?thesis using ToggleClick
    by (auto simp: menu_consistent_def toggle_click_def cl_toggle_def js_bool_str_def)
qed (auto simp: menu_consistent_def nav_defs dom_simps js_bool_str_def)

lemma nav_run_append: "nav_run s (xs @ ys) = nav_run (nav_run s xs) ys"
  by (simp add: nav_run_def)

lemma nav_reach_run: "nav_reach s (nav_run s evs)"
proof (induction evs rule: rev_induct)
  case Nil
  then show ?case by (simp add: nav_run_def nav_refl)
next
  case (snoc e evs)
  then show ?case by (simp add: nav_run_def nav_next)
qed

lemma demo_nav_consistent: "menu_consistent demo_nav"
  by (simp add: demo_nav_def menu_consistent_def js_bool_str_def)

subsection \<open>Properties\<close>

text \<open>
  C4. The open state of the mobile menu, the toggle's \<open>active\<close> class and its
  \<open>aria-expanded\<close> attribute agree in every state reachable by scroll and click
  events from a state where they agree (rule induction on \<open>nav_reach\<close>).
\<close>

theorem nav_reach_menu_consistent:
  "nav_reach s t \<Longrightarrow> menu_consistent s \<Longrightarrow> menu_consistent t"
proof (induction rule: nav_reach.induct)
  case (nav_refl s)
  then show ?case .
next
  case (nav_next s t e)
  then show ?case by (blast intro: nav_step_menu_consistent)
qed

theorem nav_reach_menu_consistent_witness:
  "nav_reach demo_nav (nav_run demo_nav [ToggleClick, Scroll 120, LinkClick 0]) \<and>
   menu_consistent demo_nav \<and>
   menu_consistent (nav_run demo_nav [ToggleClick, Scroll 120, LinkClick 0])"
  using nav_reach_menu_consistent [OF nav_reach_run demo_nav_consistent] nav_reach_run
    demo_nav_consistent by blast

text \<open>
  C5. After a scroll event, the navbar carries the class \<open>scrolled\<close> exactly when
  the vertical offset exceeds 50 pixels; at exactly 50 it does not.
\<close>

theorem scrolled_iff:
  "scroll_wired s \<Longrightarrow> ''scrolled'' \<in> navbar_cls (nav_step s (Scroll y)) \<longleftrightarrow> 50 < y"
  by (simp add: nav_defs dom_simps)

theorem scrolled_iff_witness:
  "scroll_wired demo_nav \<and> ''scrolled'' \<notin> navbar_cls (nav_step demo_nav (Scroll 50)) \<and>
   ''scrolled'' \<in> navbar_cls (nav_step demo_nav (Scroll 51))"
proof -
  have w: "scroll_wired demo_nav" by (simp add: demo_nav_def)
  show ?thesis using scrolled_iff [OF w, of 50] scrolled_iff [OF w, of 51] w by simp
qed

text \<open>
  C6. When some section holds the position \<open>scrollY + 200\<close>, \<open>highlightNav\<close>
  leaves exactly those links active whose \<open>href\<close> is \<open>#\<close> followed by the id of
  the last such section in document order.
\<close>

theorem highlight_active:
  assumes "filter (in_section (y + 200)) (sections s) = ms" and "ms \<noteq> []"
    and "k < length (links s)"
  shows "''active'' \<in> link_cls (links (highlight_nav y s) ! k) \<longleftrightarrow>
           href (links s ! k) = CHR ''#'' # sec_id (last ms)"
  using assms by (simp add: highlight_nav_matched mark_links_def mark_link_active)

theorem highlight_active_witness:
  "filter (in_section (100 + 200)) (sections demo_nav) =
     [\<lparr>sec_id = ''about'', offset_top = 0, offset_height = 500\<rparr>] \<and>
   ''active'' \<in> link_cls (links (highlight_nav 100 demo_nav) ! 0) \<and>
   ''active'' \<notin> link_cls (links (highlight_nav 100 demo_nav) ! 1)"
proof -
  have f: "filter (in_section (100 + 200)) (sections demo_nav) =
     [\<lparr>sec_id = ''about'', offset_top = 0, offset_height = 500\<rparr>]"
    by (simp add: demo_nav_def in_section_def)
  have "0 < length (links demo_nav)" and "1 < length (links demo_nav)"
    by (simp_all add: demo_nav_def)
  with highlight_active [OF f] f show ?thesis by (simp add: demo_nav_def)
qed

text \<open>
  C7. Clicking the mobile toggle twice restores the navigation state exactly, in
  particular \<open>aria-expanded\<close> is \<open>"false"\<close> again when the menu started closed.
\<close>

theorem toggle_twice:
  "menu_consistent s \<Longrightarrow> menu_wired s \<Longrightarrow> nav_run s [ToggleClick, ToggleClick] = s"
  by (auto simp: nav_run_def toggle_click_def cl_toggle_def menu_consistent_def
      js_bool_str_def insert_absorb)

theorem toggle_twice_witness:
  "menu_consistent demo_nav \<and> menu_wired demo_nav \<and>
   toggle_aria (nav_run demo_nav [ToggleClick]) = ''true'' \<and>
   toggle_aria (nav_run demo_nav [ToggleClick, ToggleClick]) = ''false''"
proof -
  have w: "menu_wired demo_nav" by (simp add: demo_nav_def)
  have t: "toggle_aria (nav_run demo_nav [ToggleClick]) = ''true''"
    by (simp add: demo_nav_def nav_run_def toggle_click_def cl_toggle_def js_bool_str_def)
  show ?thesis using toggle_twice [OF demo_nav_consistent w] demo_nav_consistent w t
    by (simp add: demo_nav_def)
qed

text \<open>
  C10. When no section holds the position \<open>scrollY + 200\<close>, \<open>highlightNav\<close> changes
  no link: the previously active link stays active.  The state is therefore not
  recomputed from scratch on every scroll, contrary to section 4.1 of the spec.
\<close>

theorem highlight_stale:
  "filter (in_section (y + 200)) (sections s) = [] \<Longrightarrow> links (highlight_nav y s) = links s"
  by (simp add: highlight_nav_links highlight_ref_def)

theorem highlight_stale_witness:
  "filter (in_section (800 + 200)) (sections demo_nav) = [] \<and>
   ''active'' \<in> link_cls (links (highlight_nav 800 demo_nav) ! 1)"
proof -
  have f: "filter (in_section (800 + 200)) (sections demo_nav) = []"
    by (simp add: demo_nav_def in_section_def)
  show ?thesis using highlight_stale [OF f] f by (simp add: demo_nav_def)
qed

text \<open>
  C11. Scroll handling is idempotent: a second scroll event at the same offset
  changes nothing.
\<close>

theorem scroll_idem: "nav_step (nav_step s (Scroll y)) (Scroll y) = nav_step s (Scroll y)"
  by (auto simp: nav_defs highlight_loop_eq_ref highlight_ref_def cl_add_def cl_remove_def
      split: list.splits)

text \<open>
  C12. When the links' targets are distinct and some section holds the scroll
  position, at most one link is active after \<open>highlightNav\<close>.
\<close>

theorem highlight_unique:
  assumes "distinct (map href (links s))"
    and "filter (in_section (y + 200)) (sections s) \<noteq> []"
  shows "length (filter (\<lambda>l. ''active'' \<in> link_cls l) (links (highlight_nav y s))) \<le> 1"
proof -
  obtain ms where ms: "filter (in_section (y + 200)) (sections s) = ms" and "ms \<noteq> []"
    using assms(2) by blast
  then have "links (highlight_nav y s) = mark_links (sec_id (last ms)) (links s)"
    by (rule highlight_nav_matched)
  then have "filter (\<lambda>l. ''active'' \<in> link_cls l) (links (highlight_nav y s)) =
      map (mark_link (sec_id (last ms)))
        (filter (\<lambda>l. href l = CHR ''#'' # sec_id (last ms)) (links s))"
    by (simp add: mark_links_def filter_map comp_def mark_link_active)
  with distinct_map_filter_le1 [OF assms(1)] show ?thesis by simp
qed

theorem highlight_unique_witness:
  "distinct (map href (links demo_nav)) \<and>
   filter (in_section (100 + 200)) (sections demo_nav) \<noteq> [] \<and>
   length (filter (\<lambda>l. ''active'' \<in> link_cls l) (links (highlight_nav 100 demo_nav))) \<le> 1"
proof -
  have d: "distinct (map href (links demo_nav))" by (simp add: demo_nav_def)
  have f: "filter (in_section (100 + 200)) (sections demo_nav) \<noteq> []"
    by (simp add: demo_nav_def in_section_def)
  show ?thesis using highlight_unique [OF d f] d f by simp
qed

end
