(* ===== verification/Counter.thy ===== *)
theory Counter
  imports Prelude
begin

text \<open>
  The counter animator, \<open>animateCounter\<close> inside \<open>initCounters\<close> in
  \<open>src/js/main.js\<close> (lines 122--146).  One animation is the closure state of
  \<open>animateCounter\<close>: \<open>startTime\<close> (\<open>None\<close> for \<open>null\<close>), whether a
  \<open>requestAnimationFrame\<close> callback is pending, and the element's text.  The target
  is \<open>parseInt(data-count, 10)\<close>, an \<open>int option\<close> with \<open>None\<close> for \<open>NaN\<close>.
  JavaScript numbers are modelled as exact reals: the frame timestamps, the progress
  and the easing curve; \<open>Math.floor\<close> is \<open>floor\<close>.  The browser's frames are a list
  of timestamps, one per callback, consumed while a callback is pending.
\<close>

record counter_anim =
  start_time :: "real option"
  pending :: bool
  shown_text :: string

text \<open>\<open>easeOutCubic\<close> (lines 128--130).\<close>

definition ease_out_cubic :: "real \<Rightarrow> real" where
  "ease_out_cubic t = 1 - (1 - t) ^ 3"

text \<open>\<open>progress\<close> (line 134), with \<open>duration = 2000\<close> (line 124).\<close>

definition counter_progress :: "real \<Rightarrow> real \<Rightarrow> real" where
  "counter_progress t0 ts = min ((ts - t0) / 2000) 1"

text \<open>\<open>current\<close> (line 135) for a target that is a number.\<close>

definition counter_current :: "real \<Rightarrow> int \<Rightarrow> int" where
  "counter_current p n = \<lfloor>ease_out_cubic p * of_int n\<rfloor>"

text \<open>
  One call of \<open>step(timestamp)\<close> (lines 132--143).  \<open>if (!startTime)\<close> is true for
  \<open>null\<close> and for \<open>0\<close>.  While the progress is below 1 the text is \<open>current\<close> and
  the next frame is requested; otherwise the text is set to \<open>target\<close> (line 141,
  overwriting line 136) and no frame is requested.
\<close>

definition counter_frame :: "int option \<Rightarrow> real \<Rightarrow> counter_anim \<Rightarrow> counter_anim" where
  "counter_frame tg ts c =
     (let t0 = (case start_time c of None \<Rightarrow> ts | Some t \<Rightarrow> if t = 0 then ts else t);
          p = counter_progress t0 ts
      in if p < 1
         then c\<lparr>start_time := Some t0, pending := True,
                shown_text := js_num_text (map_option (counter_current p) tg)\<rparr>
         else c\<lparr>start_time := Some t0, pending := False, shown_text := js_num_text tg\<rparr>)"

text \<open>The animation frames the browser delivers: each runs \<open>step\<close> if one is pending
  (lines 138--140 and 145); the list holds the states after each callback.\<close>

fun counter_frames :: "int option \<Rightarrow> real list \<Rightarrow> counter_anim \<Rightarrow> counter_anim list" where
  "counter_frames tg [] c = []"
| "counter_frames tg (ts # tss) c =
     (if pending c
      then counter_frame tg ts c # counter_frames tg tss (counter_frame tg ts c)
      else [])"

definition counter_final :: "int option \<Rightarrow> real list \<Rightarrow> counter_anim \<Rightarrow> counter_anim" where
  "counter_final tg tss c = last (c # counter_frames tg tss c)"

text \<open>\<open>animateCounter(element)\<close> (lines 122--146): read and parse the target, reset
  the closure and request the first frame.\<close>

definition animate_counter :: "string \<Rightarrow> string \<Rightarrow> int option \<times> counter_anim" where
  "animate_counter attr txt =
     (js_parse_int attr, \<lparr>start_time = None, pending = True, shown_text = txt\<rparr>)"

text \<open>The fallback without \<open>IntersectionObserver\<close> (lines 148--153) copies the attribute
  string itself into the text.\<close>

definition counter_fallback_text :: "string \<Rightarrow> string" where
  "counter_fallback_text attr = attr"

subsection \<open>Specification\<close>

text \<open>The number a frame at \<open>ts\<close> shows once the animation started at \<open>t0\<close>, for a
  target that is a number.\<close>

definition counter_value :: "int \<Rightarrow> real \<Rightarrow> real \<Rightarrow> int" where
  "counter_value n t0 ts =
     (if counter_progress t0 ts < 1 then counter_current (counter_progress t0 ts) n else n)"

subsection \<open>Lemmas on the easing curve\<close>

lemma ease_out_cubic_mono: "a \<le> b \<Longrightarrow> ease_out_cubic a \<le> ease_out_cubic b"
proof -
  assume "a \<le> b"
  then have "1 - b \<le> 1 - a" by simp
  moreover have "odd (3::nat)" by simp
  ultimately have "(1 - b) ^ 3 \<le> (1 - a) ^ 3" using power_mono_odd by blast
  then show ?thesis by (simp add: ease_out_cubic_def)
qed

lemma ease_out_cubic_one [simp]: "ease_out_cubic 1 = 1"
  by (simp add: ease_out_cubic_def)

lemma ease_out_cubic_zero [simp]: "ease_out_cubic 0 = 0"
  by (simp add: ease_out_cubic_def)

lemma counter_current_mono:
  "0 \<le> n \<Longrightarrow> p \<le> q \<Longrightarrow> counter_current p n \<le> counter_current q n"
  unfolding counter_current_def
  by (intro floor_mono mult_right_mono ease_out_cubic_mono) simp_all

lemma counter_current_bounds:
  assumes "0 \<le> n" and "0 \<le> p" and "p \<le> 1"
  shows "0 \<le> counter_current p n \<and> counter_current p n \<le> n"
proof -
  have "counter_current 0 n \<le> counter_current p n"
    using assms by (intro counter_current_mono)
  moreover have "counter_current p n \<le> counter_current 1 n"
    using assms by (intro counter_current_mono)
  ultimately show ?thesis by (simp add: counter_current_def)
qed

lemma counter_progress_mono: "a \<le> b \<Longrightarrow> counter_progress t0 a \<le> counter_progress t0 b"
proof -
  assume "a \<le> b"
  then have "(a - t0) / 2000 \<le> (b - t0) / 2000" by (simp add: divide_right_mono)
  then show ?thesis unfolding counter_progress_def by (rule min.mono) simp
qed

lemma counter_progress_bounds:
  "t0 \<le> ts \<Longrightarrow> 0 \<le> counter_progress t0 ts \<and> counter_progress t0 ts \<le> 1"
  by (simp add: counter_progress_def)

lemma counter_progress_lt1: "counter_progress t0 ts < 1 \<longleftrightarrow> ts < t0 + 2000"
  by (auto simp: counter_progress_def min_def)

lemma js_num_text_parse [js_simps]: "js_parse_int (js_num_text (Some v)) = Some v"
  by (simp add: js_num_text_def js_parse_int_int_str)

lemma counter_frame_started:
  assumes "start_time c = Some t0" and "t0 \<noteq> 0"
  shows "counter_frame tg ts c =
     (if ts < t0 + 2000
      then c\<lparr>start_time := Some t0, pending := True,
             shown_text := js_num_text (map_option (counter_current (counter_progress t0 ts)) tg)\<rparr>
      else c\<lparr>start_time := Some t0, pending := False, shown_text := js_num_text tg\<rparr>)"
  using assms by (simp add: counter_frame_def counter_progress_lt1)

lemma counter_frame_fresh:
  assumes "start_time c = None" and "ts \<noteq> 0"
  shows "counter_frame tg ts c =
     c\<lparr>start_time := Some ts, pending := True,
       shown_text := js_num_text (map_option (counter_current 0) tg)\<rparr>"
  using assms by (simp add: counter_frame_def counter_progress_def)

lemma counter_frames_pending:
  "pending c \<Longrightarrow>
   counter_frames tg (ts # tss) c = counter_frame tg ts c # counter_frames tg tss (counter_frame tg ts c)"
  by simp

lemma counter_final_Cons:
  "pending c \<Longrightarrow> counter_final tg (ts # tss) c = counter_final tg tss (counter_frame tg ts c)"
  by (simp add: counter_final_def counter_frames_pending)

lemma counter_final_stopped: "\<not> pending c \<Longrightarrow> counter_final tg tss c = c"
  by (cases tss) (simp_all add: counter_final_def)

lemma counter_final_any_timing:
  "pending c \<Longrightarrow> \<not> pending (counter_final tg tss c) \<Longrightarrow>
   shown_text (counter_final tg tss c) = js_num_text tg"
proof (induction tss arbitrary: c)
  case Nil
  then show ?case by (simp add: counter_final_def)
next
  case (Cons ts tss)
  show ?case
  proof (cases "pending (counter_frame tg ts c)")
    case True
    with Cons show ?thesis by (simp add: counter_final_Cons)
  next
    case False
    then have "shown_text (counter_frame tg ts c) = js_num_text tg"
      by (auto simp: counter_frame_def Let_def split: if_splits)
    with False Cons.prems show ?thesis by (simp add: counter_final_Cons counter_final_stopped)
  qed
qed

lemma counter_started_completes:
  "start_time c = Some t0 \<Longrightarrow> t0 \<noteq> 0 \<Longrightarrow> pending c \<Longrightarrow> (\<exists>ts \<in> set tss. t0 + 2000 \<le> ts) \<Longrightarrow>
   \<not> pending (counter_final tg tss c)"
proof (induction tss arbitrary: c)
  case Nil
  then show ?case by simp
next
  case (Cons ts tss)
  show ?case
  proof (cases "ts < t0 + 2000")
    case True
    with Cons.prems have "\<exists>ts \<in> set tss. t0 + 2000 \<le> ts" by auto
    with True Cons show ?thesis
      by (simp add: counter_final_Cons counter_frame_started)
  next
    case False
    with Cons.prems show ?thesis
      by (simp add: counter_final_Cons counter_frame_started counter_final_stopped)
  qed
qed

lemma counter_value_mono: "0 \<le> n \<Longrightarrow> a \<le> b \<Longrightarrow> counter_value n t0 a \<le> counter_value n t0 b"
proof -
  assume n: "0 \<le> n" and ab: "a \<le> b"
  have pm: "counter_progress t0 a \<le> counter_progress t0 b" using ab by (rule counter_progress_mono)
  have le1: "counter_progress t0 a \<le> 1" by (simp add: counter_progress_def)
  have "counter_current (counter_progress t0 a) n \<le> counter_current 1 n"
    using n le1 by (rule counter_current_mono)
  then have top: "counter_current (counter_progress t0 a) n \<le> n"
    by (simp add: counter_current_def)
  show ?thesis
    using counter_current_mono [OF n pm] top pm by (auto simp: counter_value_def)
qed

lemma counter_frames_values:
  "start_time c = Some t0 \<Longrightarrow> t0 \<noteq> 0 \<Longrightarrow> pending c \<Longrightarrow>
   \<exists>k. map (js_parse_int \<circ> shown_text) (counter_frames (Some n) tss c) =
        map (Some \<circ> counter_value n t0) (take k tss)"
proof (induction tss arbitrary: c)
  case Nil
  then show ?case by simp
next
  case (Cons ts tss)
  let ?c' = "counter_frame (Some n) ts c"
  have st: "start_time ?c' = Some t0" and
    v: "js_parse_int (shown_text ?c') = Some (counter_value n t0 ts)"
    using Cons.prems
    by (simp_all add: counter_frame_started counter_value_def counter_progress_lt1 js_num_text_parse)
  show ?case
  proof (cases "pending ?c'")
    case True
    with Cons.IH [OF st Cons.prems(2)] obtain k where
      "map (js_parse_int \<circ> shown_text) (counter_frames (Some n) tss ?c') =
       map (Some \<circ> counter_value n t0) (take k tss)" by blast
    with v Cons.prems(3) show ?thesis
      by (intro exI [of _ "Suc k"]) (simp add: counter_frames_pending comp_def)
  next
    case False
    then have "counter_frames (Some n) tss ?c' = []" by (cases tss) simp_all
    with v Cons.prems(3) show ?thesis
      by (intro exI [of _ "Suc 0"]) (simp add: counter_frames_pending comp_def)
  qed
qed

lemma sorted_map_mono_on:
  "(\<And>a b. a \<le> b \<Longrightarrow> f a \<le> (f b :: int)) \<Longrightarrow> sorted (xs :: real list) \<Longrightarrow> sorted (map f xs)"
  by (induction xs) (auto simp: sorted_wrt_map)

lemma counter_value_bounds:
  "0 \<le> n \<Longrightarrow> t0 \<le> ts \<Longrightarrow> 0 \<le> counter_value n t0 ts \<and> counter_value n t0 ts \<le> n"
  using counter_current_bounds counter_progress_bounds by (simp add: counter_value_def)

lemma animate_counter_fresh:
  "animate_counter attr txt = (tg, c) \<Longrightarrow>
   start_time c = None \<and> pending c \<and> tg = js_parse_int attr"
  by (auto simp: animate_counter_def)

lemma counter_fresh_values:
  assumes "animate_counter attr txt = (Some n, c)" and "0 < ts0"
  shows "\<exists>k. map (js_parse_int \<circ> shown_text) (counter_frames (Some n) (ts0 # rest) c) =
             map (Some \<circ> counter_value n ts0) (take k (ts0 # rest))"
proof -
  from animate_counter_fresh [OF assms(1)] have c: "start_time c = None" "pending c" by auto
  let ?c1 = "counter_frame (Some n) ts0 c"
  have c1: "start_time ?c1 = Some ts0" "pending ?c1"
    using c assms(2) by (simp_all add: counter_frame_fresh)
  have v1: "js_parse_int (shown_text ?c1) = Some (counter_value n ts0 ts0)"
    using c assms(2)
    by (simp add: counter_frame_fresh counter_value_def counter_progress_def js_num_text_parse)
  obtain k where k: "map (js_parse_int \<circ> shown_text) (counter_frames (Some n) rest ?c1) =
      map (Some \<circ> counter_value n ts0) (take k rest)"
    using counter_frames_values [OF c1(1) _ c1(2)] assms(2) by fastforce
  have "map (js_parse_int \<circ> shown_text) (counter_frames (Some n) (ts0 # rest) c) =
      map (Some \<circ> counter_value n ts0) (take (Suc k) (ts0 # rest))"
    using c(2) k v1 by (simp add: counter_frames_pending comp_def)
  then show ?thesis by blast
qed

text \<open>The three targets of the page's statistics, as \<open>index.html\<close> declares them in
  the spec's example (\<open>data-count\<close> 50, 120 and 8), start from the text \<open>0\<close>.\<close>

lemma demo_counter_50: "animate_counter ''50'' ''0'' =
    (Some 50, \<lparr>start_time = None, pending = True, shown_text = ''0''\<rparr>)"
  by (simp add: animate_counter_def js_parse_int_def js_ws_def is_digit_def digits_val_def digit_val_def)

lemma demo_counter_120: "animate_counter ''120'' ''0'' =
    (Some 120, \<lparr>start_time = None, pending = True, shown_text = ''0''\<rparr>)"
  by (simp add: animate_counter_def js_parse_int_def js_ws_def is_digit_def digits_val_def digit_val_def)

subsection \<open>Properties\<close>

text \<open>
  C1. Once the browser delivers a frame at least 2000 ms after the first one (which
  has a positive timestamp), the animation has stopped and the element shows
  exactly its target, \<open>String(parseInt(data-count))\<close>, whatever the frame timing
  before.
\<close>

theorem counter_completes:
  assumes "animate_counter attr txt = (tg, c)" and "0 < ts0"
    and "\<exists>ts \<in> set rest. ts0 + 2000 \<le> ts"
  shows "\<not> pending (counter_final tg (ts0 # rest) c) \<and>
         shown_text (counter_final tg (ts0 # rest) c) = js_num_text (js_parse_int attr)"
proof -
  from animate_counter_fresh [OF assms(1)] have c: "start_time c = None" "pending c"
    and tg: "tg = js_parse_int attr" by auto
  let ?c1 = "counter_frame tg ts0 c"
  have c1: "start_time ?c1 = Some ts0" "pending ?c1"
    using c assms(2) by (simp_all add: counter_frame_fresh)
  have fin: "counter_final tg (ts0 # rest) c = counter_final tg rest ?c1"
    using c by (simp add: counter_final_Cons)
  have "\<not> pending (counter_final tg rest ?c1)"
    using counter_started_completes [OF c1(1) _ c1(2) assms(3)] assms(2) by simp
  moreover from this have "shown_text (counter_final tg rest ?c1) = js_num_text tg"
    using counter_final_any_timing [OF c1(2)] by simp
  ultimately show ?thesis using fin tg by simp
qed

theorem counter_completes_witness:
  "animate_counter ''50'' ''0'' = (Some 50, \<lparr>start_time = None, pending = True, shown_text = ''0''\<rparr>) \<and>
   (0::real) < 100 \<and> (\<exists>ts \<in> set [1100, 2100::real]. 100 + 2000 \<le> ts) \<and>
   \<not> pending (counter_final (Some 50) [100, 1100, 2100]
         \<lparr>start_time = None, pending = True, shown_text = ''0''\<rparr>) \<and>
   shown_text (counter_final (Some 50) [100, 1100, 2100]
         \<lparr>start_time = None, pending = True, shown_text = ''0''\<rparr>) = ''50''"
proof -
  have p: "js_parse_int ''50'' = Some 50"
    by (simp add: js_parse_int_def js_ws_def is_digit_def digits_val_def digit_val_def)
  have t: "js_num_text (Some 50) = ''50''" by code_simp
  have e: "\<exists>ts \<in> set [1100, 2100::real]. 100 + 2000 \<le> ts" by simp
  show ?thesis
    using counter_completes [OF demo_counter_50 _ e] demo_counter_50 e p t by simp
qed

text \<open>
  C2. For a non-negative target and non-decreasing frame timestamps, the numbers the
  element shows frame after frame never decrease (the ease-out curve is monotone
  and the final frame shows the target itself).
\<close>

theorem counter_monotone:
  assumes "animate_counter attr txt = (Some n, c)" and "0 \<le> n" and "0 < ts0"
    and "sorted (ts0 # rest)"
  shows "\<exists>vs. map (js_parse_int \<circ> shown_text) (counter_frames (Some n) (ts0 # rest) c) =
               map Some vs \<and> sorted vs"
proof -
  obtain k where k: "map (js_parse_int \<circ> shown_text) (counter_frames (Some n) (ts0 # rest) c) =
      map (Some \<circ> counter_value n ts0) (take k (ts0 # rest))"
    using counter_fresh_values [OF assms(1,3)] by blast
  have "sorted (map (counter_value n ts0) (take k (ts0 # rest)))"
    using assms(2,4) by (intro sorted_map_mono_on counter_value_mono) (simp_all add: sorted_wrt_take)
  with k show ?thesis by (intro exI [of _ "map (counter_value n ts0) (take k (ts0 # rest))"]) simp
qed

theorem counter_monotone_witness:
  "animate_counter ''120'' ''0'' = (Some 120, \<lparr>start_time = None, pending = True, shown_text = ''0''\<rparr>) \<and>
   (0::int) \<le> 120 \<and> (0::real) < 100 \<and> sorted [100, 600, 1100, 2100 :: real] \<and>
   (\<exists>vs. map (js_parse_int \<circ> shown_text) (counter_frames (Some 120) [100, 600, 1100, 2100]
      \<lparr>start_time = None, pending = True, shown_text = ''0''\<rparr>) = map Some vs \<and> sorted vs)"
proof -
  have s: "sorted [100, 600, 1100, 2100 :: real]" by simp
  show ?thesis using counter_monotone [OF demo_counter_120 _ _ s] demo_counter_120 s by simp
qed

text \<open>
  C3. A first animation frame with timestamp 0 does not fix the start: \<open>!startTime\<close>
  is also true for 0, so the clock restarts at the next frame.
\<close>

theorem counter_zero_restart:
  assumes "animate_counter attr txt = (tg, c)" and "0 < t1"
  shows "start_time (counter_final tg [0, t1] c) = Some t1"
proof -
  from animate_counter_fresh [OF assms(1)] have c: "start_time c = None" "pending c" by auto
  let ?c1 = "counter_frame tg 0 c"
  have c1: "start_time ?c1 = Some 0 \<and> pending ?c1"
    using c by (simp add: counter_frame_def counter_progress_def)
  then have "start_time (counter_frame tg t1 ?c1) = Some t1"
    by (simp add: counter_frame_def Let_def)
  with c c1 show ?thesis by (simp add: counter_final_def counter_frames_pending)
qed

theorem counter_zero_restart_witness:
  "animate_counter ''50'' ''0'' = (Some 50, \<lparr>start_time = None, pending = True, shown_text = ''0''\<rparr>) \<and>
   (0::real) < 16 \<and>
   start_time (counter_final (Some 50) [0, 16] \<lparr>start_time = None, pending = True, shown_text = ''0''\<rparr>)
     = Some 16"
  using counter_zero_restart [OF demo_counter_50, of 16] demo_counter_50 by simp

text \<open>
  C9. For a non-negative target and non-decreasing timestamps, every number the
  element shows during the animation lies between 0 and the target.
\<close>

theorem counter_bounds:
  assumes "animate_counter attr txt = (Some n, c)" and "0 \<le> n" and "0 < ts0"
    and "sorted (ts0 # rest)"
  shows "\<forall>t \<in> set (counter_frames (Some n) (ts0 # rest) c).
           \<exists>v. js_parse_int (shown_text t) = Some v \<and> 0 \<le> v \<and> v \<le> n"
proof
  fix t
  assume t: "t \<in> set (counter_frames (Some n) (ts0 # rest) c)"
  obtain k where k: "map (js_parse_int \<circ> shown_text) (counter_frames (Some n) (ts0 # rest) c) =
      map (Some \<circ> counter_value n ts0) (take k (ts0 # rest))"
    using counter_fresh_values [OF assms(1,3)] by blast
  from t have "(js_parse_int \<circ> shown_text) t \<in> set (map (js_parse_int \<circ> shown_text)
      (counter_frames (Some n) (ts0 # rest) c))" by (simp only: set_map) (rule imageI)
  with k obtain ts where ts: "ts \<in> set (ts0 # rest)"
    and v: "js_parse_int (shown_text t) = Some (counter_value n ts0 ts)"
    by (auto dest: in_set_takeD)
  from ts assms(4) have "ts0 \<le> ts" by auto
  with assms(2) v counter_value_bounds show "\<exists>v. js_parse_int (shown_text t) = Some v \<and> 0 \<le> v \<and> v \<le> n"
    by blast
qed

theorem counter_bounds_witness:
  "animate_counter ''120'' ''0'' = (Some 120, \<lparr>start_time = None, pending = True, shown_text = ''0''\<rparr>) \<and>
   (0::int) \<le> 120 \<and> (0::real) < 100 \<and> sorted [100, 600, 2100 :: real] \<and>
   list_all (\<lambda>t. \<exists>v. js_parse_int (shown_text t) = Some v \<and> 0 \<le> v \<and> v \<le> 120)
     (counter_frames (Some 120) [100, 600, 2100]
        \<lparr>start_time = None, pending = True, shown_text = ''0''\<rparr>)"
proof -
  have s: "sorted [100, 600, 2100 :: real]" by simp
  show ?thesis using counter_bounds [OF demo_counter_120 _ _ s] demo_counter_120 s
    by (simp add: list_all_iff)
qed

text \<open>Where \<open>data-count\<close> is not canonical the fallback and the animation differ:
  \<open>"08"\<close> stays \<open>"08"\<close> in the fallback but becomes \<open>"8"\<close> after the animation.\<close>

lemma counter_fallback_diverges:
  "counter_fallback_text ''08'' = ''08'' \<and> js_num_text (js_parse_int ''08'') = ''8''"
  by code_simp

subsection \<open>Termination of the frame loop\<close>

text \<open>A started animation runs one frame per timestamp until the first one 2000 ms
  after its start, inclusive; a steady frame rate turns that into a count.\<close>

lemma counter_frames_length_started:
  "start_time c = Some t0 \<Longrightarrow> t0 \<noteq> 0 \<Longrightarrow> pending c \<Longrightarrow>
   length (counter_frames tg tss c) =
     (if \<exists>ts \<in> set tss. t0 + 2000 \<le> ts then Suc (length (takeWhile (\<lambda>ts. ts < t0 + 2000) tss))
      else length tss)"
proof (induction tss arbitrary: c)
  case Nil
  then show ?case by simp
next
  case (Cons ts tss)
  show ?case
  proof (cases "ts < t0 + 2000")
    case True
    with Cons.prems have "start_time (counter_frame tg ts c) = Some t0" "pending (counter_frame tg ts c)"
      by (simp_all add: counter_frame_started)
    with Cons.IH [OF _ Cons.prems(2)] True Cons.prems(3) show ?thesis by auto
  next
    case False
    with Cons.prems have "\<not> pending (counter_frame tg ts c)" by (simp add: counter_frame_started)
    then have "counter_frames tg tss (counter_frame tg ts c) = []" by (cases tss) simp_all
    with False Cons.prems(3) show ?thesis by auto
  qed
qed

lemma takeWhile_upt_less:
  assumes P: "\<And>i. P i \<longleftrightarrow> i < m"
  shows "takeWhile P [a..<b] = [a..<min b (max a m)]"
proof -
  have t: "takeWhile P [a..<b] = take (m - a) [a..<b]"
    by (rule takeWhile_eq_take_P_nth) (simp_all add: P)
  show ?thesis
  proof (cases "a + (m - a) \<le> b")
    case True
    then have "min b (max a m) = a + (m - a)" by (simp add: min_def max_def) arith
    with True t show ?thesis by simp
  next
    case False
    then have "min b (max a m) = b" by (simp add: min_def max_def) arith
    with False t show ?thesis by simp
  qed
qed

lemma steady_pending_iff:
  "0 < d \<Longrightarrow> (ts0 + of_nat i * d < ts0 + 2000) \<longleftrightarrow> i < nat \<lceil>2000 / d\<rceil>"
proof -
  assume d: "0 < d"
  have "(ts0 + of_nat i * d < ts0 + 2000) \<longleftrightarrow> of_nat i < 2000 / d" using d by (simp add: field_simps)
  also have "\<dots> \<longleftrightarrow> int i < \<lceil>2000 / d\<rceil>" by (simp add: less_ceiling_iff)
  also have "\<dots> \<longleftrightarrow> i < nat \<lceil>2000 / d\<rceil>" by linarith
  finally show ?thesis .
qed

text \<open>
  C36. The \<open>requestAnimationFrame\<close> loop of one counter ends: when the browser
  delivers frames every \<open>d\<close> ms from a positive first timestamp, the counter's
  \<open>step\<close> runs in exactly \<open>min n (\<lceil>2000 / d\<rceil> + 1)\<close> of the \<open>n\<close> frames
  offered and requests no frame after that (121 frames at 60 Hz).
\<close>

theorem counter_frames_steady:
  assumes "animate_counter attr txt = (tg, c)" and "0 < ts0" and "0 < d"
  shows "length (counter_frames tg (map (\<lambda>i. ts0 + of_nat i * d) [0..<n]) c) = min n (nat \<lceil>2000 / d\<rceil> + 1)"
proof (cases n)
  case 0
  then show ?thesis by simp
next
  case (Suc m)
  let ?N = "nat \<lceil>2000 / d\<rceil>"
  let ?f = "\<lambda>i. ts0 + of_nat i * d"
  have c: "start_time c = None" "pending c" using animate_counter_fresh [OF assms(1)] by auto
  let ?c1 = "counter_frame tg ts0 c"
  have c1: "start_time ?c1 = Some ts0" "pending ?c1" using c assms(2) by (simp_all add: counter_frame_fresh)
  have "0 < 2000 / d" using assms(3) by simp
  then have "1 \<le> \<lceil>2000 / d\<rceil>" using le_of_int_ceiling [of "2000 / d"] by linarith
  then have N1: "1 \<le> ?N" by linarith
  have up: "[0..<n] = 0 # [1..<n]" using Suc by (simp add: upt_conv_Cons)
  have tw: "takeWhile (\<lambda>ts. ts < ts0 + 2000) (map ?f [1..<n]) = map ?f [1..<min n ?N]"
    using takeWhile_upt_less [of "\<lambda>i. ?f i < ts0 + 2000" ?N 1 n] steady_pending_iff [OF assms(3)] N1
    by (simp add: takeWhile_map comp_def max_def)
  have ge: "\<And>i. ts0 + 2000 \<le> ?f i \<longleftrightarrow> ?N \<le> i"
    using steady_pending_iff [OF assms(3)] by (simp add: not_less [symmetric])
  have ex: "(\<exists>ts \<in> set (map ?f [1..<n]). ts0 + 2000 \<le> ts) \<longleftrightarrow> ?N < n"
  proof
    assume "\<exists>ts \<in> set (map ?f [1..<n]). ts0 + 2000 \<le> ts"
    then obtain i where "i < n" "ts0 + 2000 \<le> ?f i" by auto
    with ge show "?N < n" by (meson le_less_trans)
  next
    assume "?N < n"
    moreover have "ts0 + 2000 \<le> ?f ?N" by (rule ge [THEN iffD2]) simp
    ultimately show "\<exists>ts \<in> set (map ?f [1..<n]). ts0 + 2000 \<le> ts" using N1 by force
  qed
  have "length (counter_frames tg (map ?f [0..<n]) c) = Suc (length (counter_frames tg (map ?f [1..<n]) ?c1))"
    using up c(2) by simp
  also have "length (counter_frames tg (map ?f [1..<n]) ?c1) =
      (if ?N < n then Suc (length (map ?f [1..<min n ?N])) else length (map ?f [1..<n]))"
    using counter_frames_length_started [OF c1(1) _ c1(2), of tg "map ?f [1..<n]"] assms(2)
    by (simp only: tw ex)
  also have "Suc \<dots> = min n (?N + 1)" using N1 Suc by (simp add: min_def) linarith
  finally show ?thesis .
qed

theorem counter_frames_steady_witness:
  "animate_counter ''50'' ''0'' = (Some 50, \<lparr>start_time = None, pending = True, shown_text = ''0''\<rparr>) \<and>
   (0::real) < 100 \<and> (0::real) < 1000 \<and>
   length (counter_frames (Some 50) (map (\<lambda>i. 100 + of_nat i * 1000) [0..<5])
     \<lparr>start_time = None, pending = True, shown_text = ''0''\<rparr>) = 3"
proof -
  have h: "length (counter_frames (Some 50) (map (\<lambda>i. 100 + of_nat i * 1000) [0..<5])
     \<lparr>start_time = None, pending = True, shown_text = ''0''\<rparr>) = min 5 (nat \<lceil>2000 / (1000::real)\<rceil> + 1)"
    by (rule counter_frames_steady [OF demo_counter_50]) simp_all
  have e: "min 5 (nat \<lceil>2000 / (1000::real)\<rceil> + 1) = (3::nat)" by simp
  have l: "length (counter_frames (Some 50) (map (\<lambda>i. 100 + of_nat i * 1000) [0..<5])
     \<lparr>start_time = None, pending = True, shown_text = ''0''\<rparr>) = 3" using h e by (rule trans)
  show ?thesis using demo_counter_50 l by (intro conjI) (assumption | simp)+
qed
end
