(* ===== verification/Observer.thy ===== *)
theory Observer
  imports Prelude
begin

text \<open>
  The one-shot \<open>IntersectionObserver\<close> subscriptions of \<open>src/js/main.js\<close>: the
  reveal animator (lines 90--108) and the counter animator (lines 155--165) each
  create an observer whose callback walks the delivered entries in order and, for
  every intersecting entry, runs the component's effect on the target and then
  \<open>unobserve\<close>s it.  The callback is stated once, over the effect \<open>f\<close> and the
  component's state \<open>'s\<close>; the two components instantiate it.  The observer's
  own state is the set of observed targets.

  What the browser promises about delivery (the IntersectionObserver specification,
  not code of the repository) is \<open>deliverable\<close>: a batch only holds entries of
  targets the observer holds, in the model's own state, when it is delivered.  Nothing in that specification prevents
  a batch from holding two intersecting entries for the same target, queued by two
  rendering updates before the callback runs; the one-shot property needs the
  intersecting entries of a batch to have distinct targets.
\<close>

type_synonym 'e entry = "'e \<times> bool"

text \<open>The observer callback (lines 91--106 and 156--163).\<close>

fun observer_callback ::
  "('e \<Rightarrow> 's \<Rightarrow> 's) \<Rightarrow> 'e entry list \<Rightarrow> 'e set \<times> 's \<Rightarrow> 'e set \<times> 's" where
  "observer_callback f [] st = st"
| "observer_callback f ((e, intersecting) # es) (obs, s) =
     observer_callback f es (if intersecting then (obs - {e}, f e s) else (obs, s))"

text \<open>\<open>observer.observe(el)\<close> for every element of the list (lines 110--112, 167--169).\<close>

definition observe_all :: "'e list \<Rightarrow> 'e set \<Rightarrow> 'e set" where
  "observe_all es obs = obs \<union> set es"

text \<open>A sequence of callback deliveries.\<close>

fun observer_run ::
  "('e \<Rightarrow> 's \<Rightarrow> 's) \<Rightarrow> 'e entry list list \<Rightarrow> 'e set \<times> 's \<Rightarrow> 'e set \<times> 's" where
  "observer_run f [] st = st"
| "observer_run f (b # bs) st = observer_run f bs (observer_callback f b st)"

definition hits :: "'e entry list \<Rightarrow> 'e list" where
  "hits b = map fst (filter snd b)"

text \<open>The browser's side of a run: every batch only names targets the observer holds
  when the batch is delivered, and names each intersecting target once.\<close>

fun deliverable :: "('e \<Rightarrow> 's \<Rightarrow> 's) \<Rightarrow> 'e set \<times> 's \<Rightarrow> 'e entry list list \<Rightarrow> bool" where
  "deliverable f st [] = True"
| "deliverable f st (b # bs) \<longleftrightarrow>
     fst ` set b \<subseteq> fst st \<and> distinct (hits b) \<and> deliverable f (observer_callback f b st) bs"

text \<open>The effect that records which targets fired, used to count triggers.\<close>

definition log_hit :: "'e \<Rightarrow> 'e list \<Rightarrow> 'e list" where
  "log_hit e l = l @ [e]"

text \<open>Three observed elements; the first batch reports element 0 entering the
  viewport, the second element 1, the third nothing new.\<close>

definition demo_batches :: "nat entry list list" where
  "demo_batches = [[(0, True), (1, False)], [(1, True), (2, False)], [(2, False)]]"

subsection \<open>Lemmas\<close>

lemma observer_callback_obs:
  "fst (observer_callback f b (obs, s)) = obs - set (hits b)"
proof (induction b arbitrary: obs s)
  case Nil
  then show ?case by (simp add: hits_def)
next
  case (Cons x b)
  then show ?case by (cases x) (auto simp: hits_def)
qed

text \<open>The interface lemma the components use: one callback unobserves the batch's
  intersecting targets and runs the effect on them in order.\<close>

lemma observer_callback_fold:
  "observer_callback f b (obs, s) = (obs - set (hits b), fold f (hits b) s)"
proof (induction b arbitrary: obs s)
  case Nil
  then show ?case by (simp add: hits_def)
next
  case (Cons x b)
  then show ?case by (cases x) (auto simp: hits_def Diff_insert2 [symmetric])
qed

lemma observer_callback_log:
  "snd (observer_callback log_hit b (obs, l)) = l @ hits b"
proof (induction b arbitrary: obs l)
  case Nil
  then show ?case by (simp add: hits_def)
next
  case (Cons x b)
  then show ?case by (cases x) (auto simp: hits_def log_hit_def)
qed

lemma observer_callback_pair:
  "observer_callback log_hit b (obs, l) = (obs - set (hits b), l @ hits b)"
  using observer_callback_obs observer_callback_log by (metis prod.collapse)

lemma hits_subset: "set (hits b) \<subseteq> fst ` set b"
  by (auto simp: hits_def)

lemma observer_run_log_invariant:
  "deliverable log_hit (obs, l) bs \<Longrightarrow> distinct l \<Longrightarrow> set l \<inter> obs = {} \<Longrightarrow>
   distinct (snd (observer_run log_hit bs (obs, l))) \<and>
   set (snd (observer_run log_hit bs (obs, l))) \<inter>
     fst (observer_run log_hit bs (obs, l)) = {}"
proof (induction bs arbitrary: obs l)
  case Nil
  then show ?case by simp
next
  case (Cons b bs)
  from Cons.prems(1) have sub: "set (hits b) \<subseteq> obs" and d: "distinct (hits b)"
    and rest: "deliverable log_hit (obs - set (hits b), l @ hits b) bs"
    using hits_subset [of b] by (auto simp: observer_callback_pair)
  have "distinct (l @ hits b)" using Cons.prems(2,3) sub d by auto
  moreover have "set (l @ hits b) \<inter> (obs - set (hits b)) = {}" using Cons.prems(3) by auto
  ultimately show ?case
    using Cons.IH [OF rest] by (simp add: observer_callback_pair)
qed

lemma observer_run_obs:
  "fst (observer_run f bs (obs, s)) = obs - (\<Union>b \<in> set bs. set (hits b))"
proof (induction bs arbitrary: obs s)
  case Nil
  then show ?case by simp
next
  case (Cons b bs)
  obtain obs' s' where cb: "observer_callback f b (obs, s) = (obs', s')"
    by (cases "observer_callback f b (obs, s)")
  then have "obs' = obs - set (hits b)"
    using observer_callback_obs [of f b obs s] by simp
  with cb Cons.IH show ?case by auto
qed

text \<open>A batch with two intersecting entries for the same target fires the effect
  twice: \<open>unobserve\<close> does not withdraw entries already delivered.\<close>

lemma observer_duplicate_entries:
  "observer_callback log_hit [(0::nat, True), (0, True)] ({0}, []) = ({}, [0, 0])"
  by (simp add: log_hit_def)

subsection \<open>Properties\<close>

text \<open>
  C8. Under the browser's delivery guarantee, with the intersecting entries of each
  batch naming distinct targets, every observed element triggers its effect at
  most once over any sequence of callbacks: the log of triggered targets has no
  repetition.
\<close>

theorem observer_at_most_once:
  "deliverable log_hit (obs, []) bs \<Longrightarrow> distinct (snd (observer_run log_hit bs (obs, [])))"
  using observer_run_log_invariant [of obs "[]" bs] by simp

theorem observer_at_most_once_witness:
  "deliverable log_hit ({0, 1, 2}, []) demo_batches \<and>
   snd (observer_run log_hit demo_batches ({0, 1, 2}, [])) = [0, 1] \<and>
   distinct (snd (observer_run log_hit demo_batches ({0, 1, 2}, [])))"
proof -
  have d: "deliverable log_hit ({0, 1, 2}, []) demo_batches"
    by (simp add: demo_batches_def hits_def log_hit_def)
  have "snd (observer_run log_hit demo_batches ({0, 1, 2}, [])) = [0, 1]"
    by (simp add: demo_batches_def log_hit_def)
  with d observer_at_most_once [OF d] show ?thesis by simp
qed

text \<open>
  C13. Observation stops for good after the first trigger: after any sequence of
  callbacks, the observed targets are the initial ones minus every target that had
  an intersecting entry.
\<close>

theorem observer_unobserves:
  "fst (observer_run f bs (obs, s)) = obs - (\<Union>b \<in> set bs. set (hits b))"
  by (rule observer_run_obs)

end
