(* ===== verification/SmoothScroll.thy ===== *)
theory SmoothScroll
  imports Prelude
begin

text \<open>
  Smooth anchor scrolling, \<open>initSmoothScroll\<close> in \<open>src/js/main.js\<close> (lines 223--241).
  Every link whose \<open>href\<close> starts with \<open>#\<close> gets a click listener that reads the
  \<open>href\<close>, ignores the bare \<open>#\<close>, passes the \<open>href\<close> to
  \<open>document.querySelector\<close> and, when an element is found, prevents the default jump
  and scrolls smoothly to 80 pixels above the element.

  \<open>querySelector\<close> parses its argument as a CSS selector.  The model follows CSS
  Syntax Level 3 for the one shape the page uses, \<open>#\<close> followed by name characters:
  when the name is an identifier it is an id selector and finds the first element
  with that id; when it is not (it starts with a digit, or with \<open>-\<close> and a digit)
  the selector is invalid and \<open>querySelector\<close> throws a \<open>SyntaxError\<close>, which
  aborts the listener before \<open>preventDefault\<close>.  Other selectors (with \<open>.\<close>,
  \<open>:\<close>, spaces and the like) are outside the model and give \<open>Unmodelled\<close>.
\<close>

datatype selector = IdSel html_id | BadSel | OtherSel

text \<open>What one click does: the browser's own jump (\<open>Default\<close>, the listener returned
  without \<open>preventDefault\<close>), a smooth scroll to a vertical offset, or an exception
  thrown out of the listener.\<close>

datatype click_outcome = Default | SmoothTo int | Thrown | Unmodelled

definition is_letter :: "char \<Rightarrow> bool" where
  "is_letter c \<longleftrightarrow> (65::nat) \<le> of_char c \<and> (of_char c :: nat) \<le> 90 \<or>
                   (97::nat) \<le> of_char c \<and> (of_char c :: nat) \<le> 122"

definition name_start :: "char \<Rightarrow> bool" where
  "name_start c \<longleftrightarrow> is_letter c \<or> c = CHR ''_'' \<or> (128::nat) \<le> of_char c"

definition name_char :: "char \<Rightarrow> bool" where
  "name_char c \<longleftrightarrow> name_start c \<or> is_digit c \<or> c = CHR ''-''"

text \<open>An identifier: \<open>--\<close> or \<open>-\<close> and a name-start character, or a name-start
  character, followed by name characters.\<close>

fun css_ident :: "string \<Rightarrow> bool" where
  "css_ident (c # d # r) =
     (if c = CHR ''-'' then (d = CHR ''-'' \<or> name_start d) \<and> list_all name_char r
      else name_start c \<and> name_char d \<and> list_all name_char r)"
| "css_ident [c] = name_start c"
| "css_ident [] = False"

definition parse_selector :: "string \<Rightarrow> selector" where
  "parse_selector s =
     (case s of
        c # r \<Rightarrow>
          if c = CHR ''#'' \<and> r \<noteq> [] \<and> list_all name_char r
          then (if css_ident r then IdSel r else BadSel)
          else OtherSel
      | [] \<Rightarrow> BadSel)"

text \<open>The document: the elements with an id, in document order, with their
  \<open>offsetTop\<close>.  \<open>querySelector('#i')\<close> returns the first one.\<close>

type_synonym doc = "(html_id \<times> int) list"

definition query_id :: "doc \<Rightarrow> html_id \<Rightarrow> int option" where
  "query_id d i = map_of d i"

text \<open>The click listener (lines 226--239).\<close>

definition smooth_click :: "doc \<Rightarrow> string \<Rightarrow> click_outcome" where
  "smooth_click d href =
     (if href = ''#'' then Default
      else case parse_selector href of
             IdSel i \<Rightarrow> (case query_id d i of
                           Some y \<Rightarrow> SmoothTo (y - 80)
                         | None \<Rightarrow> Default)
           | BadSel \<Rightarrow> Thrown
           | OtherSel \<Rightarrow> Unmodelled)"

text \<open>\<open>initSmoothScroll\<close> (lines 223--225): the links whose \<open>href\<close> starts with \<open>#\<close>
  when the page loads get the listener.\<close>

definition smooth_links :: "string list \<Rightarrow> string list" where
  "smooth_links hrefs = filter (\<lambda>h. take 1 h = ''#'') hrefs"

definition demo_doc :: doc where
  "demo_doc = [(''hero'', 0), (''about'', 720), (''skills'', 1460), (''2024'', 2900)]"

subsection \<open>Lemmas\<close>

lemma parse_selector_id:
  "css_ident i \<Longrightarrow> list_all name_char i \<Longrightarrow> parse_selector (CHR ''#'' # i) = IdSel i"
  by (cases i) (auto simp: parse_selector_def)

lemma digit_not_name_start: "is_digit c \<Longrightarrow> \<not> name_start c"
  by (auto simp: is_digit_def name_start_def is_letter_def)

lemma css_ident_digit_start: "is_digit c \<Longrightarrow> \<not> css_ident (c # r)"
proof (cases r)
  case Nil
  assume "is_digit c"
  with Nil show ?thesis by (simp add: digit_not_name_start)
next
  case (Cons d r')
  assume dg: "is_digit c"
  then have "c \<noteq> CHR ''-''" by (auto simp: is_digit_def)
  with dg Cons show ?thesis by (simp add: digit_not_name_start)
qed

subsection \<open>Properties\<close>

text \<open>
  C15. A click on a link \<open>#i\<close> whose \<open>i\<close> is a CSS identifier naming an element of
  the page scrolls smoothly to that element's \<open>offsetTop\<close> minus 80 pixels.
\<close>

theorem smooth_click_target:
  assumes "css_ident i" and "list_all name_char i" and "query_id d i = Some y"
  shows "smooth_click d (CHR ''#'' # i) = SmoothTo (y - 80)"
proof -
  have "CHR ''#'' # i \<noteq> ''#''" using assms(1) by (cases i) auto
  with assms show ?thesis by (simp add: smooth_click_def parse_selector_id)
qed

theorem smooth_click_target_witness:
  "css_ident ''about'' \<and> list_all name_char ''about'' \<and> query_id demo_doc ''about'' = Some 720 \<and>
   smooth_click demo_doc ''#about'' = SmoothTo 640"
proof -
  have i: "css_ident ''about''" and n: "list_all name_char ''about''"
    by (simp_all add: name_char_def name_start_def is_letter_def)
  have q: "query_id demo_doc ''about'' = Some 720" by (simp add: query_id_def demo_doc_def)
  show ?thesis using smooth_click_target [OF i n q] i n q by simp
qed

text \<open>
  C16. A click on a link \<open>#i\<close> with an identifier that names no element does
  nothing beyond the browser's default, and neither does the bare \<open>#\<close>.
\<close>

theorem smooth_click_missing:
  assumes "css_ident i" and "list_all name_char i" and "query_id d i = None"
  shows "smooth_click d (CHR ''#'' # i) = Default \<and> smooth_click d ''#'' = Default"
proof -
  have "CHR ''#'' # i \<noteq> ''#''" using assms(1) by (cases i) auto
  with assms show ?thesis by (simp add: smooth_click_def parse_selector_id)
qed

theorem smooth_click_missing_witness:
  "css_ident ''projects'' \<and> list_all name_char ''projects'' \<and> query_id demo_doc ''projects'' = None \<and>
   smooth_click demo_doc ''#projects'' = Default"
proof -
  have i: "css_ident ''projects''" and n: "list_all name_char ''projects''"
    by (simp_all add: name_char_def name_start_def is_letter_def)
  have q: "query_id demo_doc ''projects'' = None" by (simp add: query_id_def demo_doc_def)
  show ?thesis using smooth_click_missing [OF i n q] i n q by simp
qed

text \<open>
  C17. A link to an element whose id starts with a digit (a valid HTML id, such as
  \<open>2024\<close>) makes \<open>querySelector\<close> throw: the listener aborts with a
  \<open>SyntaxError\<close> instead of scrolling, even though the element exists.
\<close>

theorem smooth_click_digit_id_throws:
  assumes "is_digit c" and "list_all name_char (c # r)"
  shows "smooth_click d (CHR ''#'' # c # r) = Thrown"
  using assms css_ident_digit_start [OF assms(1), of r]
  by (simp add: smooth_click_def parse_selector_def)

theorem smooth_click_digit_id_throws_witness:
  "is_digit (CHR ''2'') \<and> list_all name_char ''2024'' \<and> query_id demo_doc ''2024'' = Some 2900 \<and>
   smooth_click demo_doc ''#2024'' = Thrown"
proof -
  have c: "is_digit (CHR ''2'')" by (simp add: is_digit_def)
  have n: "list_all name_char (CHR ''2'' # ''024'')" by (simp add: name_char_def is_digit_def)
  have q: "query_id demo_doc ''2024'' = Some 2900" by (simp add: query_id_def demo_doc_def)
  show ?thesis using smooth_click_digit_id_throws [OF c n, of demo_doc] c n q by simp
qed

end
