(* ===== verification/Validator.thy ===== *)
theory Validator
  imports Prelude
begin

text \<open>
  The markup checker \<open>src/tests/validate-html.js\<close> (lines 11--58).  It reads
  \<open>index.html\<close> (\<open>None\<close> when the file does not exist), tests sixteen regular
  expressions against it in order, prints one \<open>PASS\<close> or \<open>FAIL\<close> line per check,
  then a summary, and exits with 1 when any check failed or the file is missing, else
  with 0.

  The regular expressions are sequences of atoms: a literal compared without regard
  to ASCII case (the \<open>i\<close> flag), and a character class repeated with \<open>+\<close> or
  \<open>*\<close> (\<open>[^>]\<close>, \<open>[^"]\<close>, and \<open>.\<close>, which excludes line feed and carriage
  return).  \<open>re_match\<close> is the backtracking matcher at one position and
  \<open>re_test\<close> is \<open>RegExp.prototype.test\<close>, a search from every position.  Strings
  are byte strings, so case folding and the line terminators beyond ASCII are not
  modelled.
\<close>

datatype rep = Plus | Star

datatype atom = Lit string | Cls "char \<Rightarrow> bool" rep

definition lower :: "char \<Rightarrow> char" where
  "lower c = (if (65::nat) \<le> of_char c \<and> (of_char c :: nat) \<le> 90 then char_of (of_char c + (32::nat)) else c)"

definition ci_prefix :: "string \<Rightarrow> string \<Rightarrow> bool" where
  "ci_prefix w s \<longleftrightarrow> length w \<le> length s \<and> map lower w = map lower (take (length w) s)"

definition not_char :: "char \<Rightarrow> char \<Rightarrow> bool" where
  "not_char d c \<longleftrightarrow> c \<noteq> d"

definition dot_char :: "char \<Rightarrow> bool" where
  "dot_char c \<longleftrightarrow> c \<noteq> CHR 0x0A \<and> c \<noteq> CHR 0x0D"

fun re_match :: "atom list \<Rightarrow> string \<Rightarrow> bool" where
  "re_match [] s = True"
| "re_match (Lit w # ps) s = (ci_prefix w s \<and> re_match ps (drop (length w) s))"
| "re_match (Cls p Plus # ps) s =
     (case s of [] \<Rightarrow> False | c # r \<Rightarrow> p c \<and> re_match (Cls p Star # ps) r)"
| "re_match (Cls p Star # ps) s =
     (re_match ps s \<or> (case s of [] \<Rightarrow> False | c # r \<Rightarrow> p c \<and> re_match (Cls p Star # ps) r))"

fun re_test :: "atom list \<Rightarrow> string \<Rightarrow> bool" where
  "re_test ps [] = re_match ps []"
| "re_test ps (c # r) = (re_match ps (c # r) \<or> re_test ps r)"

record check =
  check_name :: string
  pattern :: "atom list"

text \<open>The check list (lines 23--40), in order.\<close>

definition checks :: "check list" where
  \<open>checks = [
     \<lparr>check_name = ''DOCTYPE'', pattern = [Lit ''<!DOCTYPE html>'']\<rparr>,
     \<lparr>check_name = ''html lang attribute'',
      pattern = [Lit ''<html'', Cls (not_char CHR ''>'') Plus, Lit ''lang="'',
                 Cls (not_char CHR 0x22) Plus, Lit ''"'']\<rparr>,
     \<lparr>check_name = ''meta charset'',
      pattern = [Lit ''<meta'', Cls (not_char CHR ''>'') Plus, Lit ''charset="UTF-8"'']\<rparr>,
     \<lparr>check_name = ''meta viewport'',
      pattern = [Lit ''<meta'', Cls (not_char CHR ''>'') Plus, Lit ''viewport'']\<rparr>,
     \<lparr>check_name = ''title element'',
      pattern = [Lit ''<title>'', Cls dot_char Plus, Lit ''</title>'']\<rparr>,
     \<lparr>check_name = ''nav element'',
      pattern = [Lit ''<nav'', Cls (not_char CHR ''>'') Star, Lit ''>'']\<rparr>,
     \<lparr>check_name = ''hero section'', pattern = [Lit ''id="hero"'']\<rparr>,
     \<lparr>check_name = ''about section'', pattern = [Lit ''id="about"'']\<rparr>,
     \<lparr>check_name = ''skills section'', pattern = [Lit ''id="skills"'']\<rparr>,
     \<lparr>check_name = ''experience section'', pattern = [Lit ''id="experience"'']\<rparr>,
     \<lparr>check_name = ''awards section'', pattern = [Lit ''id="awards"'']\<rparr>,
     \<lparr>check_name = ''contact section'', pattern = [Lit ''id="contact"'']\<rparr>,
     \<lparr>check_name = ''CSS stylesheet link'',
      pattern = [Lit ''<link'', Cls (not_char CHR ''>'') Plus, Lit ''stylesheet'',
                 Cls (not_char CHR ''>'') Plus, Lit ''style.css'']\<rparr>,
     \<lparr>check_name = ''JS script tag'',
      pattern = [Lit ''<script'', Cls (not_char CHR ''>'') Plus, Lit ''main.js'']\<rparr>,
     \<lparr>check_name = ''footer element'', pattern = [Lit ''<footer'']\<rparr>,
     \<lparr>check_name = ''aria-label attributes'', pattern = [Lit ''aria-label'']\<rparr>]\<close>

text \<open>What the script writes: a line to standard output or to standard error.\<close>

datatype out_line = Stdout string | Stderr string

text \<open>The loop over the checks (lines 42--49): the lines written and the error count.\<close>

fun run_checks :: "check list \<Rightarrow> string \<Rightarrow> out_line list \<times> nat" where
  "run_checks [] html = ([], 0)"
| "run_checks (c # cs) html =
     (let (ls, errs) = run_checks cs html
      in if re_test (pattern c) html
         then (Stdout (''PASS: '' @ check_name c) # ls, errs)
         else (Stderr (''FAIL: Missing '' @ check_name c) # ls, Suc errs))"

text \<open>\<open>validate()\<close> (lines 11--58): the lines written and the exit code.\<close>

definition validate :: "string option \<Rightarrow> out_line list \<times> nat" where
  "validate file =
     (case file of
        None \<Rightarrow> ([Stderr ''FAIL: index.html does not exist''], 1)
      | Some html \<Rightarrow>
          (let (ls, errs) = run_checks checks html
           in if errs > 0
              then (ls @ [Stderr (CHR 0x0A # nat_str errs @ '' validation error(s) found.'')], 1)
              else (ls @ [Stdout (CHR 0x0A # ''All '' @ nat_str (length checks) @ '' checks passed.'')], 0)))"

text \<open>A page without the awards section, for the witnesses.\<close>

definition page_no_awards :: string where
  \<open>page_no_awards = ''<nav id="hero">''\<close>

subsection \<open>Lemmas\<close>

lemma run_checks_Cons:
  "run_checks (c # cs) html =
     (if re_test (pattern c) html
      then (Stdout (''PASS: '' @ check_name c) # fst (run_checks cs html), snd (run_checks cs html))
      else (Stderr (''FAIL: Missing '' @ check_name c) # fst (run_checks cs html),
            Suc (snd (run_checks cs html))))"
  by (simp add: Let_def split: prod.split)

declare run_checks.simps(2) [simp del]

lemma run_checks_length: "length (fst (run_checks cs html)) = length cs"
  by (induction cs) (simp_all add: run_checks_Cons)

lemma run_checks_errs: "snd (run_checks cs html) = length (filter (\<lambda>c. \<not> re_test (pattern c) html) cs)"
  by (induction cs) (simp_all add: run_checks_Cons)

lemma run_checks_nth:
  "i < length cs \<Longrightarrow> fst (run_checks cs html) ! i =
     (if re_test (pattern (cs ! i)) html then Stdout (''PASS: '' @ check_name (cs ! i))
      else Stderr (''FAIL: Missing '' @ check_name (cs ! i)))"
proof (induction cs arbitrary: i)
  case Nil
  then show ?case by simp
next
  case (Cons c cs)
  show ?case
  proof (cases i)
    case 0
    then show ?thesis by (simp add: run_checks_Cons)
  next
    case (Suc j)
    with Cons.prems have j: "j < length cs" by simp
    have "fst (run_checks (c # cs) html) ! i = fst (run_checks cs html) ! j"
      using Suc by (simp add: run_checks_Cons)
    also have "\<dots> = (if re_test (pattern (cs ! j)) html then Stdout (''PASS: '' @ check_name (cs ! j))
      else Stderr (''FAIL: Missing '' @ check_name (cs ! j)))"
      by (rule Cons.IH [OF j])
    finally show ?thesis using Suc by simp
  qed
qed

lemma validate_Some:
  "validate (Some html) =
     (if snd (run_checks checks html) > 0
      then (fst (run_checks checks html) @
              [Stderr (CHR 0x0A # nat_str (snd (run_checks checks html)) @ '' validation error(s) found.'')], 1)
      else (fst (run_checks checks html) @
              [Stdout (CHR 0x0A # ''All '' @ nat_str (length checks) @ '' checks passed.'')], 0))"
  by (simp add: validate_def split: prod.split)

lemma validate_lines_prefix:
  "\<exists>l. fst (validate (Some html)) = fst (run_checks checks html) @ [l]"
  by (simp add: validate_Some)

lemma no_awards_page: \<open>\<not> re_test [Lit ''id="awards"''] page_no_awards\<close>
  by (simp add: page_no_awards_def) code_simp

lemma checks_awards: \<open>checks ! 10 = \<lparr>check_name = ''awards section'', pattern = [Lit ''id="awards"'']\<rparr>\<close>
  by (simp add: checks_def)

lemma length_checks [simp]: "length checks = 16"
  by (simp add: checks_def)

subsection \<open>Properties\<close>

text \<open>
  C18. The validator exits with 0 exactly when every one of its checks matches the
  page, and with 1 otherwise.
\<close>

theorem validate_exit_code:
  "snd (validate (Some html)) = (if list_all (\<lambda>c. re_test (pattern c) html) checks then 0 else 1)"
proof -
  have "0 < snd (run_checks checks html) \<longleftrightarrow> \<not> list_all (\<lambda>c. re_test (pattern c) html) checks"
    by (simp add: run_checks_errs filter_empty_conv list_all_iff)
  then show ?thesis by (simp add: validate_Some)
qed

text \<open>
  C19. The validator writes one line per check, in the order of the check list:
  \<open>PASS: name\<close> on standard output when the pattern matches, \<open>FAIL: Missing name\<close>
  on standard error when it does not.
\<close>

theorem validate_lines:
  "i < length checks \<Longrightarrow>
   fst (validate (Some html)) ! i =
     (if re_test (pattern (checks ! i)) html then Stdout (''PASS: '' @ check_name (checks ! i))
      else Stderr (''FAIL: Missing '' @ check_name (checks ! i)))"
proof -
  assume i: "i < length checks"
  obtain l where "fst (validate (Some html)) = fst (run_checks checks html) @ [l]"
    using validate_lines_prefix by blast
  with i show ?thesis by (simp add: nth_append run_checks_length run_checks_nth)
qed

theorem validate_lines_witness:
  \<open>(10::nat) < length checks \<and>
   fst (validate (Some page_no_awards)) ! 10 = Stderr ''FAIL: Missing awards section''\<close>
  using validate_lines [of 10 page_no_awards] no_awards_page by (simp add: checks_awards)

text \<open>
  C20. Run on a page without \<open>id="awards"\<close>, the validator prints
  \<open>FAIL: Missing awards section\<close> and exits with a non-zero code.
\<close>

theorem validate_missing_awards:
  assumes \<open>\<not> re_test [Lit ''id="awards"''] html\<close>
  shows "Stderr ''FAIL: Missing awards section'' \<in> set (fst (validate (Some html))) \<and>
         snd (validate (Some html)) = 1"
proof -
  have "fst (validate (Some html)) ! 10 = Stderr ''FAIL: Missing awards section''"
    using assms run_checks_nth [of 10 checks html] validate_lines_prefix [of html]
    by (auto simp: checks_awards nth_append run_checks_length)
  moreover have "10 < length (fst (validate (Some html)))"
    using validate_lines_prefix [of html] by (auto simp: run_checks_length)
  moreover have "\<not> list_all (\<lambda>c. re_test (pattern c) html) checks"
    using assms checks_awards by (auto simp: list_all_length intro!: exI [of _ 10])
  ultimately show ?thesis
    using validate_exit_code [of html] by (metis nth_mem)
qed

theorem validate_missing_awards_witness:
  "Stderr ''FAIL: Missing awards section'' \<in> set (fst (validate (Some page_no_awards))) \<and>
   snd (validate (Some page_no_awards)) = 1"
  using validate_missing_awards [OF no_awards_page] .

text \<open>
  C21. The validator's last line is its summary (lines 51--57): when checks fail, the
  number of failing checks, on standard error; when none fails, \<open>All 16 checks
  passed.\<close> on standard output.
\<close>

theorem validate_summary:
  "last (fst (validate (Some html))) =
     (let k = length (filter (\<lambda>c. \<not> re_test (pattern c) html) checks)
      in if k = 0 then Stdout (CHR 0x0A # ''All 16 checks passed.'')
         else Stderr (CHR 0x0A # nat_str k @ '' validation error(s) found.''))"
proof -
  have n: "nat_str 16 = ''16''" by code_simp
  show ?thesis by (simp add: validate_Some run_checks_errs n Let_def)
qed

end
