(* ===== verification/Particles.thy ===== *)
theory Particles
  imports Prelude "HOL-Library.Product_Lexorder"
begin

text \<open>
  The particle spawner, \<open>initParticles\<close> in \<open>src/js/main.js\<close> (lines 175--218),
  together with the part of the browser's event loop it relies on: the list of
  pending timers.  A timer is its due time (ms), a sequence number (the order in which
  it was set) and its task: create a particle (\<open>setTimeout(createParticle, i * 400)\<close>),
  remove particle \<open>i\<close> (the \<open>setTimeout\<close> of line 204), or the repeating
  \<open>setInterval(createParticle, 2000)\<close>.  The browser runs the timer with the least
  due time, the earlier-set one first among equal ones (HTML timer initialisation
  steps), so the list is kept sorted by \<open>(due, sequence)\<close> and the head runs next.

  \<open>Math.random()\<close> is the input \<open>pt_rng\<close>: the value returned by the \<open>k\<close>-th call;
  \<open>pt_draws\<close> counts the calls made.  A timeout is converted to a WebIDL \<open>long\<close>
  and clamped at 0 (\<open>timeout_ms\<close>, the floor for a non-negative number); the
  wrap-around of timeouts of \<open>2^31\<close> ms or more is not modelled here, as this code
  sets none.
\<close>

datatype ptask = Create | Remove nat | Tick

type_synonym ptimer = "real \<times> nat \<times> ptask"

record particle =
  pid :: nat
  psize :: real
  px :: real
  pdur :: real
  pcolor :: string

record pstate =
  pt_host :: "particle list"
  pt_queue :: "ptimer list"
  pt_seq :: nat
  pt_next_id :: nat
  pt_now :: real
  pt_draws :: nat
  pt_rng :: "nat \<Rightarrow> real"

definition timer_key :: "ptimer \<Rightarrow> real \<times> nat" where
  "timer_key t = (fst t, fst (snd t))"

definition timeout_ms :: "real \<Rightarrow> real" where
  "timeout_ms x = of_int (max 0 \<lfloor>x\<rfloor>)"

text \<open>\<open>setTimeout(task, delay)\<close>.\<close>

definition set_timeout :: "real \<Rightarrow> ptask \<Rightarrow> pstate \<Rightarrow> pstate" where
  "set_timeout delay task st =
     st\<lparr>pt_queue := insort_key timer_key (pt_now st + timeout_ms delay, pt_seq st, task) (pt_queue st),
        pt_seq := Suc (pt_seq st)\<rparr>"

text \<open>The palette (lines 179--183).\<close>

definition particle_colors :: "string list" where
  "particle_colors = [''rgba(59, 130, 246, 0.4)'', ''rgba(220, 38, 38, 0.3)'', ''rgba(59, 130, 246, 0.2)'']"

text \<open>\<open>colors[Math.floor(Math.random() * colors.length)]\<close>: an index out of range reads
  \<open>undefined\<close>.\<close>

definition pick_color :: "real \<Rightarrow> string" where
  "pick_color r =
     (let k = \<lfloor>r * of_nat (length particle_colors)\<rfloor>
      in if 0 \<le> k \<and> k < int (length particle_colors) then particle_colors ! nat k else ''undefined'')"

text \<open>\<open>createParticle\<close> (lines 185--209): four calls of \<open>Math.random\<close> in the order
  size, position, duration, colour; the particle is appended to the container and its
  removal is set \<open>duration * 1000\<close> ms later.\<close>

definition create_particle :: "pstate \<Rightarrow> pstate" where
  "create_particle st =
     (let k = pt_draws st; r = pt_rng st;
          p = \<lparr>pid = pt_next_id st, psize = r k * 4 + 1, px = r (k + 1) * 100,
               pdur = r (k + 2) * 15 + 10, pcolor = pick_color (r (k + 3))\<rparr>
      in set_timeout (pdur p * 1000) (Remove (pid p))
           (st\<lparr>pt_host := pt_host st @ [p], pt_next_id := Suc (pt_next_id st),
               pt_draws := k + 4\<rparr>))"

text \<open>The removal callback (lines 204--208): remove the particle if it still has a
  parent.\<close>

definition remove_particle :: "nat \<Rightarrow> pstate \<Rightarrow> pstate" where
  "remove_particle i st =
     (if i \<in> pid ` set (pt_host st) then st\<lparr>pt_host := filter (\<lambda>p. pid p \<noteq> i) (pt_host st)\<rparr>
      else st)"

text \<open>\<open>initParticles\<close> (lines 175--218): nothing without the container; else fifteen
  creations 400 ms apart and the 2000 ms interval.\<close>

definition init_particles :: "bool \<Rightarrow> pstate \<Rightarrow> pstate" where
  "init_particles has_container st =
     (if \<not> has_container then st
      else set_timeout 2000 Tick (fold (\<lambda>i. set_timeout (of_nat i * 400) Create) [0..<15] st))"

text \<open>One turn of the event loop: the earliest timer runs at its due time.  The
  interval callback runs \<open>createParticle\<close>, then the interval is set again.\<close>

definition pstep :: "pstate \<Rightarrow> pstate" where
  "pstep st =
     (case pt_queue st of
        [] \<Rightarrow> st
      | (due, s, task) # rest \<Rightarrow>
          (let st' = st\<lparr>pt_queue := rest, pt_now := due\<rparr>
           in case task of
                Create \<Rightarrow> create_particle st'
              | Remove i \<Rightarrow> remove_particle i st'
              | Tick \<Rightarrow> set_timeout 2000 Tick (create_particle st')))"

definition prun :: "nat \<Rightarrow> pstate \<Rightarrow> pstate" where
  "prun n st = (pstep ^^ n) st"

text \<open>A page with the container, before \<open>initParticles\<close> runs, with
  \<open>Math.random\<close> returning 1/2 on every call.\<close>

definition demo_particles :: pstate where
  "demo_particles = \<lparr>pt_host = [], pt_queue = [], pt_seq = 0, pt_next_id = 0, pt_now = 0,
     pt_draws = 0, pt_rng = (\<lambda>_. 1 / 2)\<rparr>"

text \<open>A page with one particle, 17.5 s into its life, whose removal runs next.\<close>

definition demo_removal :: pstate where
  "demo_removal = \<lparr>pt_host = [\<lparr>pid = 0, psize = 3, px = 50, pdur = 17.5, pcolor = ''rgba(220, 38, 38, 0.3)''\<rparr>],
     pt_queue = [(17500, 0, Remove 0)], pt_seq = 1, pt_next_id = 1, pt_now = 0, pt_draws = 4,
     pt_rng = (\<lambda>_. 1 / 2)\<rparr>"


subsection \<open>Specification\<close>

text \<open>The removal timers pending for particle \<open>i\<close>.\<close>

definition removals :: "nat \<Rightarrow> ptimer list \<Rightarrow> ptimer list" where
  "removals i q = filter (\<lambda>t. snd (snd t) = Remove i) q"

text \<open>The spawner's invariant: the queue is ordered and lies in the future, the
  particles have distinct ids below the next one, and every particle in the container
  has exactly one pending removal while every pending removal names a particle in the
  container.\<close>

definition pinv :: "pstate \<Rightarrow> bool" where
  "pinv st \<longleftrightarrow>
     sorted (map timer_key (pt_queue st)) \<and>
     (\<forall>t \<in> set (pt_queue st). pt_now st \<le> fst t \<and> fst (snd t) < pt_seq st) \<and>
     distinct (map pid (pt_host st)) \<and>
     (\<forall>p \<in> set (pt_host st). pid p < pt_next_id st) \<and>
     (\<forall>p \<in> set (pt_host st). length (removals (pid p) (pt_queue st)) = 1) \<and>
     (\<forall>i. removals i (pt_queue st) \<noteq> [] \<longrightarrow> i \<in> pid ` set (pt_host st))"

text \<open>Particle \<open>i\<close> has been created and is gone: it is not in the container and no
  removal of it is pending.\<close>

definition gone :: "nat \<Rightarrow> pstate \<Rightarrow> bool" where
  "gone i st \<longleftrightarrow> i < pt_next_id st \<and> i \<notin> pid ` set (pt_host st) \<and> removals i (pt_queue st) = []"

subsection \<open>Lemmas and properties\<close>

lemma timeout_ms_nonneg: "0 \<le> timeout_ms x"
  by (simp add: timeout_ms_def)

lemma removals_insort_other:
  "snd (snd t) \<noteq> Remove i \<Longrightarrow> removals i (insort_key timer_key t q) = removals i q"
  by (simp add: removals_def filter_insort_triv)

lemma length_removals_insort_same:
  "sorted (map timer_key q) \<Longrightarrow> snd (snd t) = Remove i \<Longrightarrow>
   length (removals i (insort_key timer_key t q)) = Suc (length (removals i q))"
  by (simp add: removals_def filter_insort)

lemma sorted_key_head:
  "sorted (map timer_key (x # rest)) \<Longrightarrow> t \<in> set rest \<Longrightarrow> fst x \<le> fst t"
  by (auto simp: timer_key_def less_eq_prod_def)

lemma removals_Cons:
  "removals i (x # q) = (if snd (snd x) = Remove i then x # removals i q else removals i q)"
  by (simp add: removals_def)

lemma set_timeout_pinv:
  assumes "pinv st" and "\<forall>i. task \<noteq> Remove i"
  shows "pinv (set_timeout d task st)"
proof -
  have "\<forall>i. removals i (insort_key timer_key (pt_now st + timeout_ms d, pt_seq st, task) (pt_queue st))
        = removals i (pt_queue st)"
    using assms(2) by (simp add: removals_insort_other)
  with assms(1) timeout_ms_nonneg [of d] show ?thesis
    by (auto simp: pinv_def set_timeout_def sorted_insort_key set_insort_key less_Suc_eq)
qed

lemma create_particle_pinv:
  assumes inv: "pinv st"
  shows "pinv (create_particle st)"
proof -
  let ?n = "pt_next_id st"
  let ?t = "(pt_now st + timeout_ms ((pt_rng st (pt_draws st + 2) * 15 + 10) * 1000), pt_seq st, Remove ?n)"
  let ?q = "pt_queue st"
  have sq: "sorted (map timer_key ?q)" using inv by (simp add: pinv_def)
  have fresh: "?n \<notin> pid ` set (pt_host st)" using inv by (auto simp: pinv_def)
  then have none: "removals ?n ?q = []" using inv by (auto simp: pinv_def)
  have one: "length (removals ?n (insort_key timer_key ?t ?q)) = 1"
    using length_removals_insort_same [OF sq, of ?t ?n] none by simp
  have others: "\<And>j. j \<noteq> ?n \<Longrightarrow> removals j (insort_key timer_key ?t ?q) = removals j ?q"
    by (simp add: removals_insort_other)
  have named: "\<And>j. removals j (insort_key timer_key ?t ?q) \<noteq> [] \<Longrightarrow>
      j = ?n \<or> j \<in> pid ` set (pt_host st)"
    using inv others by (auto simp: pinv_def)
  show ?thesis
    using inv fresh one others named timeout_ms_nonneg
    by (auto simp: pinv_def create_particle_def set_timeout_def Let_def sorted_insort_key
        set_insort_key less_Suc_eq image_iff)
qed
lemma pop_pinv:
  assumes inv: "pinv st" and q: "pt_queue st = (due, s, task) # rest" and nr: "\<forall>i. task \<noteq> Remove i"
  shows "pinv (st\<lparr>pt_queue := rest, pt_now := due\<rparr>)"
proof -
  have sq: "sorted (map timer_key ((due, s, task) # rest))" using inv q by (simp add: pinv_def)
  have fut: "\<forall>t \<in> set rest. due \<le> fst t" using sorted_key_head [OF sq] by simp
  have same: "\<And>j. removals j rest = removals j (pt_queue st)" using nr q by (simp add: removals_Cons)
  show ?thesis using inv q fut same sq by (auto simp: pinv_def)
qed

lemma remove_pinv:
  assumes inv: "pinv st" and q: "pt_queue st = (due, s, Remove i) # rest"
  shows "pinv (remove_particle i (st\<lparr>pt_queue := rest, pt_now := due\<rparr>))"
proof -
  have sq: "sorted (map timer_key ((due, s, Remove i) # rest))" using inv q by (simp add: pinv_def)
  have fut: "\<forall>t \<in> set rest. due \<le> fst t" using sorted_key_head [OF sq] by simp
  have live: "i \<in> pid ` set (pt_host st)" using inv q by (auto simp: pinv_def removals_Cons)
  then obtain p where p: "p \<in> set (pt_host st)" "pid p = i" by blast
  have "length (removals i (pt_queue st)) = 1" using inv p by (auto simp: pinv_def)
  then have gone: "removals i rest = []" using q by (simp add: removals_Cons)
  have same: "\<And>j. j \<noteq> i \<Longrightarrow> removals j rest = removals j (pt_queue st)"
    using q by (simp add: removals_Cons)
  have named: "removals j rest \<noteq> [] \<Longrightarrow> j \<in> pid ` set (filter (\<lambda>p. pid p \<noteq> i) (pt_host st))" for j
  proof -
    assume r: "removals j rest \<noteq> []"
    with gone have ji: "j \<noteq> i" by auto
    with r same have "removals j (pt_queue st) \<noteq> []" by simp
    with inv have "j \<in> pid ` set (pt_host st)" by (simp add: pinv_def)
    with ji show ?thesis by auto
  qed
  show ?thesis using inv q fut same gone sq live named
    by (auto simp: pinv_def remove_particle_def distinct_map_filter)
qed

lemma pstep_pinv: "pinv st \<Longrightarrow> pinv (pstep st)"
proof (cases "pt_queue st")
  case Nil
  assume "pinv st"
  with Nil show ?thesis by (simp add: pstep_def)
next
  case (Cons x rest)
  assume inv: "pinv st"
  obtain due s task where x: "x = (due, s, task)" by (cases x) auto
  show ?thesis
  proof (cases task)
    case Create
    with inv Cons x have "pinv (st\<lparr>pt_queue := rest, pt_now := due\<rparr>)" by (intro pop_pinv) auto
    with Cons x Create show ?thesis by (simp add: pstep_def create_particle_pinv)
  next
    case (Remove i)
    with inv Cons x show ?thesis by (simp add: pstep_def remove_pinv)
  next
    case Tick
    with inv Cons x have "pinv (st\<lparr>pt_queue := rest, pt_now := due\<rparr>)" by (intro pop_pinv) auto
    with Cons x Tick show ?thesis by (simp add: pstep_def create_particle_pinv set_timeout_pinv)
  qed
qed

lemma init_particles_pinv: "pinv st \<Longrightarrow> pinv (init_particles b st)"
proof -
  assume inv: "pinv st"
  have "pinv (fold (\<lambda>i. set_timeout (of_nat i * 400) Create) is st)" for "is"
    using inv by (induction "is" arbitrary: st) (simp_all add: set_timeout_pinv)
  then show ?thesis using inv by (simp add: init_particles_def set_timeout_pinv)
qed

lemma prun_pinv: "pinv st \<Longrightarrow> pinv (prun n st)"
  by (induction n) (simp_all add: prun_def pstep_pinv)
lemma pick_color_in: "0 \<le> r \<Longrightarrow> r < 1 \<Longrightarrow> pick_color r \<in> set particle_colors"
proof -
  assume r: "0 \<le> r" "r < 1"
  let ?k = "\<lfloor>r * 3\<rfloor>"
  have "0 \<le> ?k" using r by simp
  moreover have "?k < 3" using r by (simp add: floor_less_iff)
  moreover have l: "length particle_colors = 3" by (simp add: particle_colors_def)
  ultimately have "nat ?k < length particle_colors" by arith
  with \<open>0 \<le> ?k\<close> \<open>?k < 3\<close> l show ?thesis by (simp add: pick_color_def Let_def)
qed

lemma last_host_create:
  "last (pt_host (create_particle st)) =
     \<lparr>pid = pt_next_id st, psize = pt_rng st (pt_draws st) * 4 + 1,
      px = pt_rng st (pt_draws st + 1) * 100, pdur = pt_rng st (pt_draws st + 2) * 15 + 10,
      pcolor = pick_color (pt_rng st (pt_draws st + 3))\<rparr>"
  by (simp add: create_particle_def set_timeout_def Let_def)

text \<open>C30. With the four \<open>Math.random\<close> draws in [0, 1), the particle created is appended to the container with a size in [1, 5) px, a horizontal position in [0, 100) percent, a duration in [10, 25) s and one of the three palette colours.\<close>

theorem particle_attr_bounds:
  assumes "\<And>j. j < 4 \<Longrightarrow> 0 \<le> pt_rng st (pt_draws st + j) \<and> pt_rng st (pt_draws st + j) < 1"
  shows "1 \<le> psize (last (pt_host (create_particle st))) \<and> psize (last (pt_host (create_particle st))) < 5 \<and>
         0 \<le> px (last (pt_host (create_particle st))) \<and> px (last (pt_host (create_particle st))) < 100 \<and>
         10 \<le> pdur (last (pt_host (create_particle st))) \<and> pdur (last (pt_host (create_particle st))) < 25 \<and>
         pcolor (last (pt_host (create_particle st))) \<in> set particle_colors"
proof -
  have r0: "0 \<le> pt_rng st (pt_draws st) \<and> pt_rng st (pt_draws st) < 1" using assms [of 0] by simp
  have r1: "0 \<le> pt_rng st (pt_draws st + 1) \<and> pt_rng st (pt_draws st + 1) < 1" using assms [of 1] by simp
  have r2: "0 \<le> pt_rng st (pt_draws st + 2) \<and> pt_rng st (pt_draws st + 2) < 1" using assms [of 2] by simp
  have r3: "0 \<le> pt_rng st (pt_draws st + 3) \<and> pt_rng st (pt_draws st + 3) < 1" using assms [of 3] by simp
  show ?thesis using r0 r1 r2 r3 pick_color_in by (simp add: last_host_create)
qed

theorem particle_attr_bounds_witness:
  "list_all (\<lambda>j. 0 \<le> pt_rng demo_particles (pt_draws demo_particles + j) \<and>
             pt_rng demo_particles (pt_draws demo_particles + j) < 1) [0..<4] \<and>
   pdur (last (pt_host (create_particle demo_particles))) < 25"
proof -
  have h: "\<And>j. j < 4 \<Longrightarrow> 0 \<le> pt_rng demo_particles (pt_draws demo_particles + j) \<and>
                       pt_rng demo_particles (pt_draws demo_particles + j) < 1"
    by (simp add: demo_particles_def)
  have "list_all (\<lambda>j. 0 \<le> pt_rng demo_particles (pt_draws demo_particles + j) \<and>
             pt_rng demo_particles (pt_draws demo_particles + j) < 1) [0..<4]"
    by (simp add: demo_particles_def list_all_iff)
  then show ?thesis using particle_attr_bounds [OF h] by blast
qed
lemma pinv_empty: "pt_host st = [] \<Longrightarrow> pt_queue st = [] \<Longrightarrow> pinv st"
  by (simp add: pinv_def removals_def)

text \<open>C27. From a page whose container is empty and on which no timer is pending, \<open>initParticles\<close> followed by any number of turns of the event loop keeps the spawner invariant: the timer queue is ordered and in the future, particle ids are distinct, every particle in the container has exactly one pending removal and every pending removal names a particle in the container.\<close>

theorem particles_invariant:
  "pt_host st = [] \<Longrightarrow> pt_queue st = [] \<Longrightarrow> pinv (prun n (init_particles b st))"
  by (intro prun_pinv init_particles_pinv pinv_empty)

theorem particles_invariant_witness:
  "pt_host demo_particles = [] \<and> pt_queue demo_particles = [] \<and>
   pinv (prun 40 (init_particles True demo_particles))"
proof -
  have h: "pt_host demo_particles = []" "pt_queue demo_particles = []"
    by (simp_all add: demo_particles_def)
  show ?thesis using particles_invariant [OF h] h by simp
qed

lemma create_gone: "gone i st \<Longrightarrow> gone i (create_particle st)"
  by (auto simp: gone_def create_particle_def set_timeout_def Let_def removals_insort_other)

lemma pstep_gone: "gone i st \<Longrightarrow> gone i (pstep st)"
proof (cases "pt_queue st")
  case Nil
  assume "gone i st"
  with Nil show ?thesis by (simp add: pstep_def)
next
  case (Cons x rest)
  assume g: "gone i st"
  obtain due s task where x: "x = (due, s, task)" by (cases x) auto
  have g': "gone i (st\<lparr>pt_queue := rest, pt_now := due\<rparr>)"
    using g Cons x by (auto simp: gone_def removals_Cons split: if_splits)
  show ?thesis
  proof (cases task)
    case Create
    with Cons x g' show ?thesis by (simp add: pstep_def create_gone)
  next
    case (Remove j)
    with Cons x g' show ?thesis by (auto simp: pstep_def remove_particle_def gone_def Let_def)
  next
    case Tick
    with Cons x g' create_gone [OF g'] show ?thesis
      by (simp add: pstep_def gone_def set_timeout_def removals_insort_other Let_def)
  qed
qed

lemma prun_gone: "gone i st \<Longrightarrow> gone i (prun n st)"
  by (induction n) (simp_all add: prun_def pstep_gone)

lemma prun_Suc: "prun (Suc n) st = prun n (pstep st)"
  by (simp only: prun_def funpow_Suc_right comp_apply)

lemma remove_particle_fields:
  "pt_queue (remove_particle i st) = pt_queue st" "pt_now (remove_particle i st) = pt_now st"
  by (simp_all add: remove_particle_def)

text \<open>When the removal of particle \<open>i\<close> is the next timer, \<open>i\<close> is live, and the turn
  that runs it takes it out of the container at the timer's due time for good.\<close>

lemma remove_head_gone:
  assumes "pinv st" and "pt_queue st = (due, s, Remove i) # rest"
  shows "i \<in> pid ` set (pt_host st) \<and> gone i (pstep st) \<and> pt_now (pstep st) = due"
proof -
  have live: "i \<in> pid ` set (pt_host st)" using assms by (auto simp: pinv_def removals_Cons)
  then obtain p where p: "p \<in> set (pt_host st)" "pid p = i" by blast
  have lt: "i < pt_next_id st" using assms(1) p by (auto simp: pinv_def)
  have "length (removals i (pt_queue st)) = 1" using assms(1) p by (auto simp: pinv_def)
  then have "removals i rest = []" using assms(2) by (simp add: removals_Cons)
  then have "gone i (pstep st)" using assms(2) lt
    by (auto simp: gone_def pstep_def remove_particle_def Let_def)
  with live assms(2) show ?thesis by (simp add: pstep_def remove_particle_fields)
qed

text \<open>C28. When the next timer to run is the removal of particle \<open>i\<close> in a state satisfying the invariant, \<open>i\<close> is in the container, and after that turn it is never in the container again and no removal of it is pending, whatever runs afterwards: each particle is removed exactly once.\<close>

theorem particle_removed_once:
  assumes "pinv st" and "pt_queue st = (due, s, Remove i) # rest"
  shows "i \<in> pid ` set (pt_host st) \<and> (\<forall>n. i \<notin> pid ` set (pt_host (prun n (pstep st))) \<and>
           removals i (pt_queue (prun n (pstep st))) = [])"
proof -
  have "i \<in> pid ` set (pt_host st) \<and> gone i (pstep st)" using remove_head_gone [OF assms] by blast
  then show ?thesis using prun_gone by (simp add: gone_def)
qed

theorem particle_removed_once_witness:
  "pinv demo_removal \<and> pt_queue demo_removal = [(17500, 0, Remove 0)] \<and>
   0 \<in> pid ` set (pt_host demo_removal) \<and>
   (\<forall>n. 0 \<notin> pid ` set (pt_host (prun n (pstep demo_removal))) \<and>
        removals 0 (pt_queue (prun n (pstep demo_removal))) = [])"
proof -
  have i: "pinv demo_removal"
    by (auto simp: pinv_def demo_removal_def removals_def timer_key_def)
  have q: "pt_queue demo_removal = [(17500, 0, Remove 0)]" by (simp add: demo_removal_def)
  show ?thesis using particle_removed_once [OF i q] i q by simp
qed

lemma removals_insort_same:
  "snd (snd t) = Remove i \<Longrightarrow> removals i q = [] \<Longrightarrow> removals i (insort_key timer_key t q) = [t]"
  by (induction q) (auto simp: removals_def)

text \<open>C29. \<open>createParticle\<close> sets exactly one removal for the new particle, due between 10 and 25 seconds after the current time, when the duration draw of \<open>Math.random\<close> lies in [0, 1).\<close>

theorem particle_lifetime:
  assumes inv: "pinv st" and r: "0 \<le> pt_rng st (pt_draws st + 2)" "pt_rng st (pt_draws st + 2) < 1"
  shows "\<exists>due s. removals (pt_next_id st) (pt_queue (create_particle st)) = [(due, s, Remove (pt_next_id st))] \<and>
           pt_now st + 10000 \<le> due \<and> due < pt_now st + 25000"
proof -
  let ?n = "pt_next_id st"
  let ?d = "(pt_rng st (pt_draws st + 2) * 15 + 10) * 1000"
  have "?n \<notin> pid ` set (pt_host st)" using inv by (auto simp: pinv_def)
  then have none: "removals ?n (pt_queue st) = []" using inv by (auto simp: pinv_def)
  have lo: "10000 \<le> ?d" and hi: "?d < 25000" using r by simp_all
  have "10000 \<le> \<lfloor>?d\<rfloor>" using lo by linarith
  moreover have "\<lfloor>?d\<rfloor> < 25000" using hi by linarith
  ultimately have "10000 \<le> timeout_ms ?d" "timeout_ms ?d < 25000"
    by (simp_all add: timeout_ms_def)
  moreover have "removals ?n (pt_queue (create_particle st)) =
      [(pt_now st + timeout_ms ?d, pt_seq st, Remove ?n)]"
    using none by (simp add: create_particle_def set_timeout_def Let_def removals_insort_same)
  ultimately show ?thesis by auto
qed

theorem particle_lifetime_witness:
  "\<exists>due s. removals 0 (pt_queue (create_particle demo_particles)) = [(due, s, Remove 0)] \<and>
      0 + 10000 \<le> due \<and> due < 0 + 25000"
proof -
  have i: "pinv demo_particles" by (simp add: pinv_def demo_particles_def removals_def)
  have r: "0 \<le> pt_rng demo_particles (pt_draws demo_particles + 2)"
          "pt_rng demo_particles (pt_draws demo_particles + 2) < 1" by (simp_all add: demo_particles_def)
  show ?thesis using particle_lifetime [OF i r] by (simp add: demo_particles_def)
qed

text \<open>C31. With the container present and no timer pending, \<open>initParticles\<close> schedules fifteen creations 400 ms apart and the 2000 ms interval; the interval, set after them, runs after the creation due at 2000 ms.\<close>

theorem init_particles_schedule:
  "pt_queue st = [] \<Longrightarrow>
   map (\<lambda>t. (fst t - pt_now st, snd (snd t))) (pt_queue (init_particles True st)) =
     [(0, Create), (400, Create), (800, Create), (1200, Create), (1600, Create), (2000, Create),
      (2000, Tick), (2400, Create), (2800, Create), (3200, Create), (3600, Create), (4000, Create),
      (4400, Create), (4800, Create), (5200, Create), (5600, Create)]"
  by (simp add: init_particles_def set_timeout_def timeout_ms_def timer_key_def upt_rec)

theorem init_particles_schedule_witness:
  "pt_queue demo_particles = [] \<and>
   map (\<lambda>t. (fst t - pt_now demo_particles, snd (snd t))) (pt_queue (init_particles True demo_particles)) =
     [(0, Create), (400, Create), (800, Create), (1200, Create), (1600, Create), (2000, Create),
      (2000, Tick), (2400, Create), (2800, Create), (3200, Create), (3600, Create), (4000, Create),
      (4400, Create), (4800, Create), (5200, Create), (5600, Create)]"
proof -
  have q: "pt_queue demo_particles = []" by (simp add: demo_particles_def)
  show ?thesis using init_particles_schedule [OF q] q by simp
qed

end
