(* ===== verification/ParticleLiveness.thy ===== *)
theory ParticleLiveness
  imports Particles
begin

text \<open>
  Liveness of the particle spawner of \<open>src/js/main.js\<close> (lines 175--218): every
  particle that \<open>createParticle\<close> appends is removed, at the due time of its removal
  timer, and never comes back.  The interval keeps the timer queue non-empty forever,
  so the argument is not that the loop ends but that the removal timer reaches the
  head of the queue: \<open>ahead\<close> weighs the timers due before it, and every turn of the
  event loop that does not run it decreases that weight (\<open>ahead_pstep\<close>).  The
  proof is a well-founded induction on this measure, with the spawner invariant
  \<open>pinv\<close> and the distinctness of sequence numbers \<open>seq_ok\<close> carried along.
\<close>

text \<open>The timers of the queue carry distinct sequence numbers: each \<open>setTimeout\<close>
  takes a fresh one.\<close>

definition seq_ok :: "pstate \<Rightarrow> bool" where
  "seq_ok st \<longleftrightarrow> distinct (map (\<lambda>t. fst (snd t)) (pt_queue st))"

text \<open>The work left before the timer with key \<open>k = (d, s)\<close> runs.  A creation
  weighs 2 (it sets one removal, which may be due before \<open>d\<close>), a removal 1, and the
  interval weighs 3 for each of its runs still due before \<open>d\<close> (each sets one removal
  and re-arms itself 2000 ms later).\<close>

definition ahead_weight :: "real \<Rightarrow> ptimer \<Rightarrow> nat" where
  "ahead_weight d t =
     (case snd (snd t) of Create \<Rightarrow> 2 | Remove _ \<Rightarrow> 1
      | Tick \<Rightarrow> 3 * (1 + nat (\<lceil>(d - fst t) / 2000\<rceil> - 1)))"

definition ahead :: "real \<times> nat \<Rightarrow> ptimer list \<Rightarrow> nat" where
  "ahead k q = sum_list (map (ahead_weight (fst k)) (filter (\<lambda>t. timer_key t < k) q))"

subsection \<open>Lemmas\<close>

lemma ahead_insort:
  "ahead k (insort_key timer_key x q) = (if timer_key x < k then ahead_weight (fst k) x else 0) + ahead k q"
  by (induction q) (auto simp: ahead_def)

lemma ahead_Cons:
  "ahead k (x # q) = (if timer_key x < k then ahead_weight (fst k) x else 0) + ahead k q"
  by (simp add: ahead_def)

lemma key_fresh_less:
  "s < s' \<Longrightarrow> timer_key (due, s', task) < (d, s) \<longleftrightarrow> due < d"
  by (auto simp: timer_key_def less_prod_def)

lemma ahead_weight_remove: "ahead_weight d (due, s, Remove i) = 1"
  by (simp add: ahead_weight_def)

lemma tick_weight_step:
  assumes "t + 2000 < d"
  shows "ahead_weight d (t + 2000, s', Tick) + 3 = ahead_weight d (t, s, Tick)"
proof -
  have c: "\<lceil>(d - (t + 2000)) / 2000\<rceil> = \<lceil>(d - t) / 2000\<rceil> - 1"
  proof -
    have "(d - (t + 2000)) / 2000 = (d - t) / 2000 - 1" by (simp add: field_simps)
    then show ?thesis by (simp only: ceiling_diff_one)
  qed
  have "1 < (d - t) / 2000" using assms by simp
  then have "2 \<le> \<lceil>(d - t) / 2000\<rceil>" by linarith
  then have e: "nat (\<lceil>(d - t) / 2000\<rceil> - 1) = Suc (nat (\<lceil>(d - t) / 2000\<rceil> - 1 - 1))" by arith
  have "ahead_weight d (t + 2000, s', Tick) = 3 * (1 + nat (\<lceil>(d - (t + 2000)) / 2000\<rceil> - 1))"
    "ahead_weight d (t, s, Tick) = 3 * (1 + nat (\<lceil>(d - t) / 2000\<rceil> - 1))"
    by (simp_all add: ahead_weight_def)
  then show ?thesis by (simp only: c e) simp
qed

lemma distinct_map_insort:
  "distinct (map g (insort_key f x xs)) \<longleftrightarrow> g x \<notin> g ` set xs \<and> distinct (map g xs)"
  by (induction xs) (auto simp: set_insort_key)

lemma seq_ok_set_timeout:
  "seq_ok st \<Longrightarrow> \<forall>t \<in> set (pt_queue st). fst (snd t) < pt_seq st \<Longrightarrow> seq_ok (set_timeout dl task st)"
  by (auto simp: seq_ok_def set_timeout_def distinct_map_insort)

lemma pinv_seq_bound: "pinv st \<Longrightarrow> \<forall>t \<in> set (pt_queue st). fst (snd t) < pt_seq st"
  by (simp add: pinv_def)

lemma create_particle_fields:
  "pt_queue (create_particle st) = insort_key timer_key
     (pt_now st + timeout_ms ((pt_rng st (pt_draws st + 2) * 15 + 10) * 1000), pt_seq st, Remove (pt_next_id st))
     (pt_queue st)"
  "pt_seq (create_particle st) = Suc (pt_seq st)"
  "pt_now (create_particle st) = pt_now st"
  by (simp_all add: create_particle_def set_timeout_def Let_def)

lemma seq_ok_create: "pinv st \<Longrightarrow> seq_ok st \<Longrightarrow> seq_ok (create_particle st)"
  unfolding create_particle_def Let_def
  by (rule seq_ok_set_timeout) (auto simp: seq_ok_def pinv_def)

lemma seq_ok_pop: "seq_ok st \<Longrightarrow> pt_queue st = x # rest \<Longrightarrow> seq_ok (st\<lparr>pt_queue := rest, pt_now := t\<rparr>)"
  by (simp add: seq_ok_def)

lemma seq_ok_pstep: "pinv st \<Longrightarrow> seq_ok st \<Longrightarrow> seq_ok (pstep st)"
proof (cases "pt_queue st")
  case Nil
  assume "seq_ok st"
  with Nil show ?thesis by (simp add: pstep_def)
next
  case (Cons x rest)
  assume inv: "pinv st" and ok: "seq_ok st"
  obtain due s task where x: "x = (due, s, task)" by (cases x) auto
  let ?st' = "st\<lparr>pt_queue := rest, pt_now := due\<rparr>"
  have ok': "seq_ok ?st'" using seq_ok_pop [OF ok Cons] .
  have b': "\<forall>t \<in> set rest. fst (snd t) < pt_seq st" using inv Cons by (simp add: pinv_def)
  then have inv'': "pinv ?st' \<or> (\<exists>i. task = Remove i)" using pop_pinv [OF inv] Cons x by blast
  show ?thesis
  proof (cases task)
    case Create
    with inv'' have "pinv ?st'" by simp
    with Cons x Create ok' show ?thesis by (simp add: pstep_def seq_ok_create)
  next
    case (Remove j)
    with Cons x ok' show ?thesis by (simp add: pstep_def remove_particle_def seq_ok_def Let_def)
  next
    case Tick
    with inv'' have i': "pinv ?st'" by simp
    have "pinv (create_particle ?st')" using create_particle_pinv [OF i'] .
    moreover have "seq_ok (create_particle ?st')" using seq_ok_create [OF i' ok'] .
    ultimately have "seq_ok (set_timeout 2000 Tick (create_particle ?st'))"
      by (simp add: seq_ok_set_timeout pinv_seq_bound)
    with Cons x Tick show ?thesis by (simp add: pstep_def)
  qed
qed

lemma pstep_keeps:
  "pt_queue st = h # rest \<Longrightarrow> e \<in> set rest \<Longrightarrow> e \<in> set (pt_queue (pstep st))"
  by (cases h) (auto simp: pstep_def remove_particle_def create_particle_fields set_timeout_def
      set_insort_key Let_def split: ptask.split)

lemma ahead_pstep:
  assumes q: "pt_queue st = h # rest" and hk: "timer_key h < (d, s)" and sl: "s < pt_seq st"
  shows "ahead (d, s) (pt_queue (pstep st)) < ahead (d, s) (pt_queue st)"
proof -
  obtain t sh task where h: "h = (t, sh, task)" by (cases h) auto
  let ?st' = "st\<lparr>pt_queue := rest, pt_now := t\<rparr>"
  have base: "ahead (d, s) (pt_queue st) = ahead_weight d h + ahead (d, s) rest"
    using q hk by (simp add: ahead_Cons)
  have ins: "\<And>x q. ahead (d, s) (insort_key timer_key x q) \<le> ahead_weight d x + ahead (d, s) q"
    by (simp add: ahead_insort)
  have cr: "ahead (d, s) (pt_queue (create_particle ?st')) \<le> 1 + ahead (d, s) rest"
    by (simp add: create_particle_fields ahead_insort ahead_weight_remove)
  show ?thesis
  proof (cases task)
    case Create
    with cr base h q show ?thesis by (simp add: pstep_def ahead_weight_def)
  next
    case (Remove j)
    with base h q show ?thesis by (simp add: pstep_def remove_particle_fields ahead_weight_def)
  next
    case Tick
    have tk: "timeout_ms 2000 = 2000" by (simp add: timeout_ms_def)
    have fresh: "s < pt_seq (create_particle ?st')" using sl by (simp add: create_particle_fields)
    have w3: "3 \<le> ahead_weight d h" using h Tick by (simp add: ahead_weight_def)
    have "ahead (d, s) (pt_queue (pstep st)) =
        (if t + 2000 < d then ahead_weight d (t + 2000, pt_seq (create_particle ?st'), Tick) else 0)
        + ahead (d, s) (pt_queue (create_particle ?st'))"
      using q h Tick key_fresh_less [OF fresh]
      by (simp add: pstep_def set_timeout_def tk ahead_insort create_particle_fields)
    also have "\<dots> < ahead_weight d h + ahead (d, s) rest"
    proof (cases "t + 2000 < d")
      case True
      have "ahead_weight d (t + 2000, Suc (pt_seq st), Tick) + 3 = ahead_weight d h"
        using tick_weight_step [OF True] h Tick by simp
      with True cr show ?thesis by (simp add: create_particle_fields)
    next
      case False
      with cr w3 show ?thesis by simp
    qed
    finally show ?thesis using base by simp
  qed
qed


lemma sorted_head_key:
  "sorted (map timer_key (h # rest)) \<Longrightarrow> e \<in> set rest \<Longrightarrow> timer_key h \<le> timer_key e"
  by simp

lemma removal_eventually_runs:
  assumes "pinv st" "seq_ok st" "(d, s, Remove i) \<in> set (pt_queue st)"
  shows "\<exists>n. pt_now (prun n st) = d \<and> (\<forall>m \<ge> n. gone i (prun m st))"
  using assms
proof (induction "ahead (d, s) (pt_queue st)" arbitrary: st rule: less_induct)
  case less
  obtain h rest where q: "pt_queue st = h # rest" using less.prems(3) by (cases "pt_queue st") auto
  show ?case
  proof (cases "h = (d, s, Remove i)")
    case True
    then have g: "gone i (pstep st) \<and> pt_now (pstep st) = d"
      using remove_head_gone [OF less.prems(1)] q by blast
    have "\<forall>m \<ge> 1. gone i (prun m st)"
    proof (intro allI impI)
      fix m :: nat assume "1 \<le> m"
      then obtain k where "m = Suc k" by (cases m) auto
      then show "gone i (prun m st)" using g prun_gone by (simp add: prun_Suc)
    qed
    with g show ?thesis by (intro exI [of _ 1]) (simp add: prun_Suc prun_def)
  next
    case False
    with less.prems(3) q have e: "(d, s, Remove i) \<in> set rest" by simp
    have sq: "sorted (map timer_key (h # rest))" using less.prems(1) q by (simp add: pinv_def)
    have le: "timer_key h \<le> (d, s)" using sorted_head_key [OF sq e] by (simp add: timer_key_def)
    have "fst (snd h) \<notin> (\<lambda>t. fst (snd t)) ` set rest"
      using less.prems(2) q by (simp add: seq_ok_def)
    moreover have "s \<in> (\<lambda>t. fst (snd t)) ` set rest" using e by (rule rev_image_eqI) simp
    ultimately have "fst (snd h) \<noteq> s" by metis
    then have hk: "timer_key h < (d, s)" using le by (auto simp: timer_key_def)
    have sl: "s < pt_seq st" using less.prems(1) less.prems(3) by (force simp: pinv_def)
    have dec: "ahead (d, s) (pt_queue (pstep st)) < ahead (d, s) (pt_queue st)"
      using ahead_pstep [OF q hk sl] .
    have "pinv (pstep st)" using pstep_pinv [OF less.prems(1)] .
    moreover have "seq_ok (pstep st)" using seq_ok_pstep [OF less.prems(1,2)] .
    moreover have "(d, s, Remove i) \<in> set (pt_queue (pstep st))" using pstep_keeps [OF q e] .
    ultimately obtain n where n: "pt_now (prun n (pstep st)) = d" "\<forall>m \<ge> n. gone i (prun m (pstep st))"
      using less.hyps [OF dec] by blast
    have "\<forall>m \<ge> Suc n. gone i (prun m st)"
    proof (intro allI impI)
      fix m :: nat assume "Suc n \<le> m"
      then obtain k where "m = Suc k" "n \<le> k" by (cases m) auto
      then show "gone i (prun m st)" using n(2) by (simp add: prun_Suc)
    qed
    with n(1) show ?thesis by (intro exI [of _ "Suc n"]) (simp add: prun_Suc)
  qed
qed


lemma fold_set_timeout_inv:
  "pinv st \<Longrightarrow> seq_ok st \<Longrightarrow>
   pinv (fold (\<lambda>i. set_timeout (f i) Create) xs st) \<and> seq_ok (fold (\<lambda>i. set_timeout (f i) Create) xs st)"
  by (induction xs arbitrary: st) (simp_all add: set_timeout_pinv seq_ok_set_timeout pinv_seq_bound)

lemma init_particles_seq_ok: "pinv st \<Longrightarrow> seq_ok st \<Longrightarrow> seq_ok (init_particles b st)"
  using fold_set_timeout_inv [of st "\<lambda>i. of_nat i * 400" "[0..<15]"]
  by (simp add: init_particles_def seq_ok_set_timeout pinv_seq_bound)

lemma prun_seq_ok: "pinv st \<Longrightarrow> seq_ok st \<Longrightarrow> seq_ok (prun n st)"
  by (induction n arbitrary: st) (simp_all add: prun_Suc pstep_pinv seq_ok_pstep, simp add: prun_def)

lemma live_has_removal:
  "pinv st \<Longrightarrow> p \<in> set (pt_host st) \<Longrightarrow> \<exists>d s. (d, s, Remove (pid p)) \<in> set (pt_queue st)"
proof -
  assume "pinv st" "p \<in> set (pt_host st)"
  then have "length (removals (pid p) (pt_queue st)) = 1" by (simp add: pinv_def)
  then obtain t where "t \<in> set (removals (pid p) (pt_queue st))" by (cases "removals (pid p) (pt_queue st)") auto
  then have "t \<in> set (pt_queue st)" "snd (snd t) = Remove (pid p)" by (simp_all add: removals_def)
  then show ?thesis by (intro exI [of _ "fst t"] exI [of _ "fst (snd t)"]) (cases t, simp)
qed

text \<open>
  C32. On a page whose container starts empty with no timer pending, every particle
  present after \<open>initParticles\<close> and any number of turns of the event loop is removed:
  some later turn, run at the due time of its removal timer, takes it out of the
  container, and it is absent from then on.
\<close>

theorem particles_no_leak:
  assumes "pt_host st = []" "pt_queue st = []" "p \<in> set (pt_host (prun k (init_particles b st)))"
  shows "\<exists>n. (\<exists>s. (pt_now (prun n (prun k (init_particles b st))), s, Remove (pid p)) \<in>
                   set (pt_queue (prun k (init_particles b st)))) \<and>
             (\<forall>m \<ge> n. pid p \<notin> pid ` set (pt_host (prun m (prun k (init_particles b st)))))"
proof -
  let ?S = "prun k (init_particles b st)"
  have e: "pinv st" "seq_ok st" using assms(1,2) by (simp_all add: pinv_empty seq_ok_def)
  have i: "pinv ?S" using prun_pinv init_particles_pinv e(1) by blast
  have o: "seq_ok ?S" using prun_seq_ok init_particles_seq_ok init_particles_pinv e by blast
  obtain d s where r: "(d, s, Remove (pid p)) \<in> set (pt_queue ?S)" using live_has_removal [OF i assms(3)] by blast
  obtain n where "pt_now (prun n ?S) = d" "\<forall>m \<ge> n. gone (pid p) (prun m ?S)"
    using removal_eventually_runs [OF i o r] by blast
  with r show ?thesis by (auto simp: gone_def)
qed


text \<open>The demo page's first turn creates a particle.\<close>

lemma demo_first_particle: "pt_host (prun 1 (init_particles True demo_particles)) \<noteq> []"
  by (simp add: prun_def pstep_def init_particles_def set_timeout_def timeout_ms_def timer_key_def
      demo_particles_def create_particle_def Let_def upt_rec)

theorem particles_no_leak_witness:
  "pt_host demo_particles = [] \<and> pt_queue demo_particles = [] \<and>
   hd (pt_host (prun 1 (init_particles True demo_particles))) \<in> set (pt_host (prun 1 (init_particles True demo_particles))) \<and>
   (\<exists>n. (\<exists>s. (pt_now (prun n (prun 1 (init_particles True demo_particles))), s,
              Remove (pid (hd (pt_host (prun 1 (init_particles True demo_particles)))))) \<in>
            set (pt_queue (prun 1 (init_particles True demo_particles)))) \<and>
        (\<forall>m \<ge> n. pid (hd (pt_host (prun 1 (init_particles True demo_particles)))) \<notin>
           pid ` set (pt_host (prun m (prun 1 (init_particles True demo_particles))))))"
proof -
  have h: "pt_host demo_particles = []" "pt_queue demo_particles = []" by (simp_all add: demo_particles_def)
  have p: "hd (pt_host (prun 1 (init_particles True demo_particles))) \<in> set (pt_host (prun 1 (init_particles True demo_particles)))"
    using demo_first_particle by simp
  show ?thesis using particles_no_leak [OF h p] h p by blast
qed

end
