(* ===== verification/Reveal.thy ===== *)
theory Reveal
  imports Observer "HOL-Library.Word"
begin

text \<open>
  The reveal-on-scroll animator, \<open>initScrollAnimations\<close> in \<open>src/js/main.js\<close>
  (lines 78--113).  The animated elements (\<open>[data-animate]\<close>, document order) are
  numbered \<open>0..<n\<close>; \<open>rv_delays\<close> holds their \<open>data-delay\<close> attributes
  (\<open>None\<close> when absent).  The observer's set of observed elements is kept beside the
  DOM part \<open>reveal_dom\<close>: the elements with class \<open>visible\<close>, the pending
  \<open>setTimeout\<close> callbacks (due time and element) and the clock.

  \<open>setTimeout(f, delay, el)\<close> converts \<open>delay\<close> to a WebIDL \<open>long\<close> (\<open>NaN\<close> to 0,
  otherwise modulo \<open>2^32\<close> into the signed range, the JavaScript \<open>ToInt32\<close>, here
  \<open>sint\<close> of a \<open>32 word\<close>) and a negative timeout to 0 (HTML timer initialisation
  steps); \<open>timer_delay\<close> is that conversion and models the platform.
\<close>

record reveal_dom =
  rv_delays :: "string option list"
  rv_visible :: "nat set"
  rv_timers :: "(real \<times> nat) list"
  rv_now :: real

type_synonym reveal_st = "nat set \<times> reveal_dom"

text \<open>\<open>parseInt(el.getAttribute('data-delay') || '0', 10)\<close> (line 95): a missing or
  empty attribute reads as \<open>'0'\<close>.\<close>

definition reveal_delay :: "string option \<Rightarrow> int option" where
  "reveal_delay a = js_parse_int (case a of None \<Rightarrow> ''0'' | Some s \<Rightarrow> if s = [] then ''0'' else s)"

definition timer_delay :: "int option \<Rightarrow> nat" where
  "timer_delay v = (case v of None \<Rightarrow> 0 | Some i \<Rightarrow> nat (sint (word_of_int i :: 32 word)))"

text \<open>The effect of an intersecting entry (lines 94--102): schedule the timer that adds
  \<open>visible\<close> to the element.\<close>

definition schedule_reveal :: "nat \<Rightarrow> reveal_dom \<Rightarrow> reveal_dom" where
  "schedule_reveal i d =
     d\<lparr>rv_timers := rv_timers d @
        [(rv_now d + of_nat (timer_delay (reveal_delay (rv_delays d ! i))), i)]\<rparr>"

text \<open>The time passing to \<open>t\<close>: every timer due by then runs its callback
  \<open>element.classList.add('visible')\<close> (line 98).\<close>

definition reveal_advance :: "real \<Rightarrow> reveal_dom \<Rightarrow> reveal_dom" where
  "reveal_advance t d =
     (if t < rv_now d then d
      else d\<lparr>rv_visible := rv_visible d \<union> snd ` set (filter (\<lambda>(due, i). due \<le> t) (rv_timers d)),
             rv_timers := filter (\<lambda>(due, i). t < due) (rv_timers d),
             rv_now := t\<rparr>)"

text \<open>\<open>initScrollAnimations\<close> (lines 78--113) with \<open>n\<close> animated elements: nothing
  without elements; every element visible at once without
  \<open>IntersectionObserver\<close> (lines 82--88); otherwise all of them observed.\<close>

definition init_reveal :: "bool \<Rightarrow> reveal_dom \<Rightarrow> reveal_st" where
  "init_reveal has_io d =
     (let n = length (rv_delays d)
      in if n = 0 then ({}, d)
         else if \<not> has_io then ({}, d\<lparr>rv_visible := rv_visible d \<union> {0..<n}\<rparr>)
         else (observe_all [0..<n] {}, d))"

datatype reveal_event = RevealBatch "nat entry list" | Advance real

fun reveal_step :: "reveal_st \<Rightarrow> reveal_event \<Rightarrow> reveal_st" where
  "reveal_step st (RevealBatch b) = observer_callback schedule_reveal b st"
| "reveal_step (obs, d) (Advance t) = (obs, reveal_advance t d)"

text \<open>The runs the browser can produce from the initial state: an entry only for an
  element still observed, each intersecting element once per batch (the delivery
  guarantee of \<open>Observer\<close>), and time that only moves forward.\<close>

inductive reveal_reach :: "reveal_dom \<Rightarrow> reveal_st \<Rightarrow> bool" for d0 where
  reveal_init: "reveal_reach d0 (init_reveal True d0)"
| reveal_batch: "reveal_reach d0 (obs, d) \<Longrightarrow> fst ` set b \<subseteq> obs \<Longrightarrow> distinct (hits b) \<Longrightarrow>
     reveal_reach d0 (reveal_step (obs, d) (RevealBatch b))"
| reveal_time: "reveal_reach d0 (obs, d) \<Longrightarrow> rv_now d \<le> t \<Longrightarrow>
     reveal_reach d0 (reveal_step (obs, d) (Advance t))"

text \<open>Two animated elements, the second with \<open>data-delay="300"\<close>, none revealed yet.\<close>

definition demo_reveal :: reveal_dom where
  "demo_reveal = \<lparr>rv_delays = [None, Some ''300''], rv_visible = {}, rv_timers = [], rv_now = 0\<rparr>"

subsection \<open>Specification\<close>

text \<open>Each of the \<open>n\<close> animated elements is in exactly one phase: observed,
  waiting for its one timer, or revealed.\<close>

definition reveal_inv :: "nat \<Rightarrow> reveal_st \<Rightarrow> bool" where
  "reveal_inv n st \<longleftrightarrow>
     (let (obs, d) = st; pend = map snd (rv_timers d); vis = rv_visible d
      in distinct pend \<and> obs \<inter> set pend = {} \<and> obs \<inter> vis = {} \<and> set pend \<inter> vis = {} \<and>
         obs \<union> set pend \<union> vis = {0..<n})"

subsection \<open>Lemmas\<close>

lemma fold_schedule_reveal:
  "fold schedule_reveal is d =
     d\<lparr>rv_timers := rv_timers d @
        map (\<lambda>i. (rv_now d + of_nat (timer_delay (reveal_delay (rv_delays d ! i))), i)) is\<rparr>"
  by (induction "is" arbitrary: d) (simp_all add: schedule_reveal_def)

lemma reveal_step_batch:
  "reveal_step (obs, d) (RevealBatch b) =
     (obs - set (hits b),
      d\<lparr>rv_timers := rv_timers d @
         map (\<lambda>i. (rv_now d + of_nat (timer_delay (reveal_delay (rv_delays d ! i))), i)) (hits b)\<rparr>)"
  by (simp add: observer_callback_fold fold_schedule_reveal)

lemma snd_filter_split:
  "distinct (map snd xs) \<Longrightarrow> snd ` set (filter P xs) \<inter> snd ` set (filter (\<lambda>x. \<not> P x) xs) = {}"
proof (induction xs)
  case Nil
  then show ?case by simp
next
  case (Cons x xs)
  then show ?case by (auto simp: image_iff)
qed

lemma snd_filter_union:
  "snd ` set (filter P xs) \<union> snd ` set (filter (\<lambda>x. \<not> P x) xs) = set (map snd xs)"
proof -
  have "set (filter P xs) \<union> set (filter (\<lambda>x. \<not> P x) xs) = set xs" by auto
  then show ?thesis by (simp flip: image_Un)
qed

lemma reveal_inv_init:
  "rv_visible d0 = {} \<Longrightarrow> rv_timers d0 = [] \<Longrightarrow> reveal_inv (length (rv_delays d0)) (init_reveal True d0)"
  by (auto simp: reveal_inv_def init_reveal_def observe_all_def Let_def)

lemma reveal_inv_batch:
  assumes "reveal_inv n (obs, d)" and "fst ` set b \<subseteq> obs" and "distinct (hits b)"
  shows "reveal_inv n (reveal_step (obs, d) (RevealBatch b))"
proof -
  have h: "set (hits b) \<subseteq> obs" using assms(2) hits_subset [of b] by blast
  show ?thesis using assms(1,3) h
    by (auto simp: reveal_inv_def Let_def observer_callback_fold fold_schedule_reveal comp_def
        image_Un image_image)
qed

lemma reveal_inv_advance:
  assumes "reveal_inv n (obs, d)"
  shows "reveal_inv n (reveal_step (obs, d) (Advance t))"
proof (cases "t < rv_now d")
  case True
  with assms show ?thesis by (simp add: reveal_advance_def)
next
  case False
  let ?ts = "rv_timers d" and ?vis = "rv_visible d"
  let ?F = "snd ` set (filter (\<lambda>(due, i). due \<le> t) ?ts)"
  let ?P = "map snd (filter (\<lambda>(due, i). t < due) ?ts)"
  from assms have dis: "distinct (map snd ?ts)" and o1: "obs \<inter> set (map snd ?ts) = {}"
    and o2: "obs \<inter> ?vis = {}" and o3: "set (map snd ?ts) \<inter> ?vis = {}"
    and cov: "obs \<union> set (map snd ?ts) \<union> ?vis = {0..<n}"
    by (simp_all add: reveal_inv_def Let_def)
  have eq: "filter (\<lambda>x. \<not> (case x of (due, i) \<Rightarrow> due \<le> t)) ?ts = filter (\<lambda>(due, i). t < due) ?ts"
    by (rule filter_cong) auto
  have split: "?F \<inter> set ?P = {}"
    using snd_filter_split [OF dis, of "\<lambda>(due, i). due \<le> t"] by (simp add: eq)
  have un: "?F \<union> set ?P = set (map snd ?ts)"
    using snd_filter_union [of "\<lambda>(due, i). due \<le> t" ?ts] by (simp add: eq)
  have d1: "distinct ?P" using dis by (simp add: distinct_map_filter)
  have d2: "obs \<inter> set ?P = {}" using o1 un by blast
  have d3: "obs \<inter> (?vis \<union> ?F) = {}" using o1 o2 un by blast
  have d4: "set ?P \<inter> (?vis \<union> ?F) = {}" using o3 split un by blast
  have d5: "obs \<union> set ?P \<union> (?vis \<union> ?F) = {0..<n}" using cov un by blast
  show ?thesis using False d1 d2 d3 d4 d5
    by (simp add: reveal_inv_def Let_def reveal_advance_def)
qed

lemma timer_delay_nat: "timer_delay (Some i) = nat (signed_take_bit 31 i)"
  by (simp add: timer_delay_def sint_sbintrunc')

lemma reveal_delay_300: "reveal_delay (Some ''300'') = Some 300"
  by (simp add: reveal_delay_def js_parse_int_def js_ws_def is_digit_def digits_val_def digit_val_def)

lemma reveal_delay_absent: "reveal_delay None = Some 0"
  by (simp add: reveal_delay_def js_parse_int_def js_ws_def is_digit_def digits_val_def digit_val_def)

lemma timer_delay_wraps: "timer_delay (Some 4294967396) = 100"
  by (simp add: timer_delay_def)

lemma demo_reveal_init: "init_reveal True demo_reveal = ({0, 1}, demo_reveal)"
  by (auto simp: init_reveal_def demo_reveal_def observe_all_def)

subsection \<open>Properties\<close>

text \<open>
  C22. In every state the browser can reach from a page where no animated element is
  revealed and no timer is pending, each animated element is in exactly one phase:
  still observed, waiting for its single reveal timer, or revealed (rule induction
  on \<open>reveal_reach\<close>).
\<close>

theorem reveal_reach_inv:
  "reveal_reach d0 st \<Longrightarrow> rv_visible d0 = {} \<Longrightarrow> rv_timers d0 = [] \<Longrightarrow>
   reveal_inv (length (rv_delays d0)) st"
proof (induction rule: reveal_reach.induct)
  case reveal_init
  then show ?case by (intro reveal_inv_init)
next
  case (reveal_batch obs d b)
  then show ?case by (blast intro: reveal_inv_batch)
next
  case (reveal_time obs d t)
  then show ?case by (blast intro: reveal_inv_advance)
qed
theorem reveal_reach_inv_witness:
  "reveal_reach demo_reveal (reveal_step (reveal_step ({0, 1}, demo_reveal) (RevealBatch [(1, True)]))
     (Advance 500)) \<and>
   rv_visible demo_reveal = {} \<and> rv_timers demo_reveal = [] \<and>
   reveal_inv 2 (reveal_step (reveal_step ({0, 1}, demo_reveal) (RevealBatch [(1, True)])) (Advance 500))"
proof -
  have r0: "reveal_reach demo_reveal ({0, 1}, demo_reveal)"
    using reveal_reach.reveal_init [of demo_reveal] by (simp only: demo_reveal_init)
  have b: "reveal_step ({0, 1}, demo_reveal) (RevealBatch [(1, True)]) =
      ({0}, demo_reveal\<lparr>rv_timers := [(300, 1)]\<rparr>)"
    by (auto simp: observer_callback_fold hits_def demo_reveal_def schedule_reveal_def
        reveal_delay_300 timer_delay_def)
  have r1: "reveal_reach demo_reveal ({0}, demo_reveal\<lparr>rv_timers := [(300, 1)]\<rparr>)"
    using reveal_reach.reveal_batch [OF r0, of "[(1, True)]"] b by (simp add: hits_def)
  have r2: "reveal_reach demo_reveal (reveal_step ({0}, demo_reveal\<lparr>rv_timers := [(300, 1)]\<rparr>) (Advance 500))"
    by (rule reveal_reach.reveal_time [OF r1]) (simp add: demo_reveal_def)
  have e: "rv_visible demo_reveal = {}" "rv_timers demo_reveal = []"
    by (simp_all add: demo_reveal_def)
  have "length (rv_delays demo_reveal) = 2" by (simp add: demo_reveal_def)
  with reveal_reach_inv [OF r2 e] r2 e b show ?thesis by simp
qed

text \<open>
  C23. An element reported intersecting is revealed once the time reaches the moment
  of the report plus its \<open>data-delay\<close> (as \<open>setTimeout\<close> converts it).
\<close>

theorem reveal_eventually_visible:
  assumes "i \<in> set (hits b)"
    and "rv_now d + of_nat (timer_delay (reveal_delay (rv_delays d ! i))) \<le> t"
  shows "i \<in> rv_visible (snd (reveal_step (reveal_step (obs, d) (RevealBatch b)) (Advance t)))"
proof -
  let ?due = "rv_now d + of_nat (timer_delay (reveal_delay (rv_delays d ! i)))"
  have "(?due, i) \<in> set (rv_timers (snd (reveal_step (obs, d) (RevealBatch b))))"
    using assms(1) by (simp add: observer_callback_fold fold_schedule_reveal)
  moreover have "rv_now d \<le> t" using assms(2) by linarith
  ultimately show ?thesis using assms(2)
    by (auto simp: observer_callback_fold fold_schedule_reveal reveal_advance_def image_iff
        intro!: bexI [of _ "(?due, i)"])
qed

theorem reveal_eventually_visible_witness:
  "(1::nat) \<in> set (hits [(1, True)]) \<and>
   rv_now demo_reveal + of_nat (timer_delay (reveal_delay (rv_delays demo_reveal ! 1))) \<le> 300 \<and>
   1 \<in> rv_visible (snd (reveal_step (reveal_step ({0, 1}, demo_reveal) (RevealBatch [(1, True)]))
     (Advance 300)))"
proof -
  have h: "(1::nat) \<in> set (hits [(1, True)])" by (simp add: hits_def)
  have t: "rv_now demo_reveal + of_nat (timer_delay (reveal_delay (rv_delays demo_reveal ! 1))) \<le> 300"
    by (simp add: demo_reveal_def reveal_delay_300 timer_delay_def)
  show ?thesis using reveal_eventually_visible [OF h t] h t by simp
qed

text \<open>
  C24. Without \<open>IntersectionObserver\<close>, every animated element is revealed at once.
\<close>

theorem reveal_fallback:
  "rv_delays d \<noteq> [] \<Longrightarrow> {0..<length (rv_delays d)} \<subseteq> rv_visible (snd (init_reveal False d))"
  by (simp add: init_reveal_def Let_def)

theorem reveal_fallback_witness:
  "rv_delays demo_reveal \<noteq> [] \<and> {0, 1} \<subseteq> rv_visible (snd (init_reveal False demo_reveal))"
proof -
  have n: "rv_delays demo_reveal \<noteq> []" by (simp add: demo_reveal_def)
  have "{0..<length (rv_delays demo_reveal)} = {0, 1::nat}" by (auto simp: demo_reveal_def)
  with reveal_fallback [OF n] n show ?thesis by simp
qed

lemma schedule_reveal_int_str:
  "rv_delays d ! i = Some (js_int_str n) \<Longrightarrow>
   rv_timers (schedule_reveal i d) =
     rv_timers d @ [(rv_now d + of_nat (nat (signed_take_bit 31 n)), i)]"
proof -
  assume a: "rv_delays d ! i = Some (js_int_str n)"
  have "js_int_str n \<noteq> []" by (simp add: js_int_str_def nat_str_nonempty)
  with a show ?thesis
    by (simp add: schedule_reveal_def reveal_delay_def js_parse_int_int_str timer_delay_nat)
qed

lemma signed_take_bit_31_wrap:
  "2 ^ 32 \<le> (n::int) \<Longrightarrow> n < 2 ^ 32 + 2 ^ 31 \<Longrightarrow> signed_take_bit 31 n = n - 2 ^ 32"
proof -
  assume a: "2 ^ 32 \<le> n" "n < 2 ^ 32 + 2 ^ 31"
  have "signed_take_bit 31 n = signed_take_bit 31 (n - 2 ^ 32)"
  proof -
    have "(n - 2 ^ 32) mod 2 ^ 32 = ((n - 2 ^ 32) + 2 ^ 32) mod (2 ^ 32 :: int)" by (rule mod_add_self2 [symmetric])
    then show ?thesis by (simp add: signed_take_bit_eq_iff_take_bit_eq take_bit_eq_mod)
  qed
  also have "\<dots> = n - 2 ^ 32" using a by (simp add: signed_take_bit_int_eq_self)
  finally show ?thesis .
qed

text \<open>
  C25. The delay the code reads is the delay it waits: when \<open>data-delay\<close> is absent
  (read as \<open>'0'\<close>) or the decimal text of \<open>n\<close> with \<open>0 \<le> n < 2^31\<close>, the
  intersecting element's reveal timer is due exactly \<open>n\<close> ms after the report, queued
  after the timers already pending (lines 95--102).
\<close>

theorem schedule_reveal_exact:
  assumes "rv_delays d ! i = None \<and> n = 0 \<or> rv_delays d ! i = Some (js_int_str n)"
    and "0 \<le> n" and "n < 2 ^ 31"
  shows "rv_timers (schedule_reveal i d) = rv_timers d @ [(rv_now d + of_int n, i)]"
  using assms(1)
proof
  assume "rv_delays d ! i = None \<and> n = 0"
  then show ?thesis by (simp add: schedule_reveal_def reveal_delay_absent timer_delay_def)
next
  assume "rv_delays d ! i = Some (js_int_str n)"
  with assms(2,3) show ?thesis by (simp add: schedule_reveal_int_str signed_take_bit_int_eq_self)
qed

theorem schedule_reveal_exact_witness:
  "(rv_delays demo_reveal ! 1 = None \<and> (300::int) = 0 \<or> rv_delays demo_reveal ! 1 = Some (js_int_str 300)) \<and>
   (0::int) \<le> 300 \<and> (300::int) < 2 ^ 31 \<and>
   rv_timers (schedule_reveal 1 demo_reveal) = [(300, 1)]"
proof -
  have s: "js_int_str 300 = ''300''" by code_simp
  have h: "rv_delays demo_reveal ! 1 = None \<and> (300::int) = 0 \<or> rv_delays demo_reveal ! 1 = Some (js_int_str 300)"
    by (simp add: demo_reveal_def s)
  show ?thesis using schedule_reveal_exact [OF h] h by (simp add: demo_reveal_def)
qed

text \<open>
  C26. The code passes the parsed \<open>data-delay\<close> to \<open>setTimeout\<close> unchecked, so it is
  taken modulo \<open>2^32\<close>: a negative delay down to \<open>-2^31\<close> reveals at once, and a
  delay of \<open>2^32 + m\<close> ms (\<open>0 \<le> m < 2^31\<close>) reveals after \<open>m\<close> ms instead of about
  fifty days.
\<close>

theorem schedule_reveal_wraps:
  assumes "rv_delays d ! i = Some (js_int_str n)"
  shows "(- (2 ^ 31) \<le> n \<and> n < 0 \<longrightarrow> rv_timers (schedule_reveal i d) = rv_timers d @ [(rv_now d, i)]) \<and>
         (2 ^ 32 \<le> n \<and> n < 2 ^ 32 + 2 ^ 31 \<longrightarrow>
            rv_timers (schedule_reveal i d) = rv_timers d @ [(rv_now d + of_int (n - 2 ^ 32), i)])"
  using assms by (auto simp: schedule_reveal_int_str signed_take_bit_int_eq_self signed_take_bit_31_wrap)
theorem schedule_reveal_wraps_witness:
  "rv_delays (demo_reveal\<lparr>rv_delays := [Some (js_int_str 4294967396)]\<rparr>) ! 0 = Some (js_int_str 4294967396) \<and>
   rv_timers (schedule_reveal 0 (demo_reveal\<lparr>rv_delays := [Some (js_int_str 4294967396)]\<rparr>)) = [(100, 0)]"
proof -
  have h: "rv_delays (demo_reveal\<lparr>rv_delays := [Some (js_int_str 4294967396)]\<rparr>) ! 0 = Some (js_int_str 4294967396)"
    by simp
  show ?thesis using schedule_reveal_wraps [OF h] h by (simp add: demo_reveal_def)
qed

end
