(* ===== verification/CounterPage.thy ===== *)
theory CounterPage
  imports Counter Observer
begin

text \<open>
  \<open>initCounters\<close> in \<open>src/js/main.js\<close> (lines 118--170) on a whole page: the
  counters of the page (\<open>querySelectorAll('[data-count]')\<close>, in document order),
  the one-shot observer that starts an animation when a counter comes into view, and
  the animation closures that \<open>animateCounter\<close> creates, all of them driven by the
  same animation frames.  A closure is the state of \<open>Counter\<close> (\<open>counter_anim\<close>)
  with the counter it writes and its parsed target; a frame runs the callback of
  every closure that requested one, in the order the requests were made, and each
  callback writes its own counter's text.  The observer is the callback of
  \<open>Observer\<close> with \<open>animate_at\<close> as its effect.
\<close>

record cpage =
  cp_attr :: "string list"
  cp_text :: "string list"
  cp_anims :: "(nat \<times> int option \<times> counter_anim) list"

type_synonym counter_st = "nat set \<times> cpage"

text \<open>\<open>animateCounter(counters[k])\<close> (lines 122--146): a new closure reading the
  counter's \<open>data-count\<close>, whose first frame is requested.\<close>

definition animate_at :: "nat \<Rightarrow> cpage \<Rightarrow> cpage" where
  "animate_at k p =
     (let (tg, c) = animate_counter (cp_attr p ! k) (cp_text p ! k)
      in p\<lparr>cp_anims := cp_anims p @ [(k, tg, c)]\<rparr>)"

text \<open>One animation frame at \<open>ts\<close>: the \<open>step\<close> callbacks requested before it run in
  request order (lines 132--143); each sets its counter's \<open>textContent\<close>.\<close>

fun frame_callbacks ::
  "real \<Rightarrow> (nat \<times> int option \<times> counter_anim) list \<Rightarrow> string list \<Rightarrow>
   (nat \<times> int option \<times> counter_anim) list \<times> string list" where
  "frame_callbacks ts [] tx = ([], tx)"
| "frame_callbacks ts ((k, tg, c) # as) tx =
     (if pending c
      then (let c' = counter_frame tg ts c; r = frame_callbacks ts as (tx[k := shown_text c'])
            in ((k, tg, c') # fst r, snd r))
      else (let r = frame_callbacks ts as tx in ((k, tg, c) # fst r, snd r)))"

definition counter_page_frame :: "real \<Rightarrow> cpage \<Rightarrow> cpage" where
  "counter_page_frame ts p =
     (let r = frame_callbacks ts (cp_anims p) (cp_text p)
      in p\<lparr>cp_anims := fst r, cp_text := snd r\<rparr>)"

text \<open>\<open>initCounters\<close> (lines 118--170): nothing without counters; without
  \<open>IntersectionObserver\<close> every counter's text becomes its \<open>data-count\<close> string
  (lines 148--153); otherwise every counter is observed (lines 167--169).\<close>

definition init_counters :: "bool \<Rightarrow> cpage \<Rightarrow> counter_st" where
  "init_counters has_io p =
     (if cp_attr p = [] then ({}, p)
      else if \<not> has_io then ({}, p\<lparr>cp_text := map counter_fallback_text (cp_attr p)\<rparr>)
      else (observe_all [0..<length (cp_attr p)] {}, p))"

datatype counter_event = CounterBatch "nat entry list" | Frame real

text \<open>The observer callback (lines 155--163) and the animation frames.\<close>

fun counter_step :: "counter_st \<Rightarrow> counter_event \<Rightarrow> counter_st" where
  "counter_step st (CounterBatch b) = observer_callback animate_at b st"
| "counter_step (obs, p) (Frame ts) = (obs, counter_page_frame ts p)"

definition counter_page_frames :: "real list \<Rightarrow> cpage \<Rightarrow> cpage" where
  "counter_page_frames tss p = fold counter_page_frame tss p"

text \<open>The runs the browser can produce: batches as \<open>Observer\<close> describes them, and
  animation frames with positive timestamps (a \<open>DOMHighResTimeStamp\<close> measured from
  the page's time origin, after the page has loaded).\<close>

inductive counter_reach :: "cpage \<Rightarrow> counter_st \<Rightarrow> bool" for p0 where
  counter_init: "counter_reach p0 (init_counters True p0)"
| counter_batch: "counter_reach p0 (obs, p) \<Longrightarrow> fst ` set b \<subseteq> obs \<Longrightarrow> distinct (hits b) \<Longrightarrow>
     counter_reach p0 (counter_step (obs, p) (CounterBatch b))"
| counter_frame_step: "counter_reach p0 (obs, p) \<Longrightarrow> 0 < ts \<Longrightarrow>
     counter_reach p0 (counter_step (obs, p) (Frame ts))"

text \<open>The page of the spec's example: three counters with targets 50, 120 and 8, all
  showing 0.\<close>

definition demo_page :: cpage where
  "demo_page = \<lparr>cp_attr = [''50'', ''120'', ''8''], cp_text = [''0'', ''0'', ''0''], cp_anims = []\<rparr>"

text \<open>A closure as \<open>animateCounter\<close> creates it, showing the counter's text.\<close>

definition demo_fresh :: "string \<Rightarrow> counter_anim" where
  "demo_fresh t = \<lparr>start_time = None, pending = True, shown_text = t\<rparr>"

subsection \<open>Specification\<close>

text \<open>A closure is consistent with the page: it writes a counter of the page that
  is no longer observed, its target is that counter's parsed \<open>data-count\<close>, the
  counter shows the closure's text, a finished closure shows its target, and a
  started closure started at a positive time.\<close>

definition closure_ok :: "cpage \<Rightarrow> nat set \<Rightarrow> nat \<times> int option \<times> counter_anim \<Rightarrow> bool" where
  "closure_ok p obs a \<longleftrightarrow>
     (let (k, tg, c) = a
      in k < length (cp_attr p) \<and> k \<notin> obs \<and> tg = js_parse_int (cp_attr p ! k) \<and>
         cp_text p ! k = shown_text c \<and> (\<not> pending c \<longrightarrow> shown_text c = js_num_text tg) \<and>
         (case start_time c of None \<Rightarrow> True | Some t \<Rightarrow> 0 < t))"

text \<open>The page invariant: one text per counter, only counters of the page observed,
  at most one closure per counter, every closure consistent.\<close>

definition cpage_inv :: "counter_st \<Rightarrow> bool" where
  "cpage_inv st \<longleftrightarrow>
     (let (obs, p) = st
      in length (cp_text p) = length (cp_attr p) \<and> obs \<subseteq> {..<length (cp_attr p)} \<and>
         distinct (map fst (cp_anims p)) \<and> list_all (closure_ok p obs) (cp_anims p))"

text \<open>Frames that let a closure finish: a positive first frame for a closure not yet
  started, and a frame at least 2000 ms after the start.\<close>

definition frames_complete :: "real list \<Rightarrow> counter_anim \<Rightarrow> bool" where
  "frames_complete tss c \<longleftrightarrow>
     (case start_time c of
        None \<Rightarrow> (case tss of [] \<Rightarrow> False | ts0 # rest \<Rightarrow> 0 < ts0 \<and> list_ex (\<lambda>ts. ts0 + 2000 \<le> ts) rest)
      | Some t0 \<Rightarrow> list_ex (\<lambda>ts. t0 + 2000 \<le> ts) tss)"

text \<open>What one frame does to one closure: its callback runs if it requested one.\<close>

definition closure_frame :: "real \<Rightarrow> nat \<times> int option \<times> counter_anim \<Rightarrow> nat \<times> int option \<times> counter_anim" where
  "closure_frame ts a = (case a of (k, tg, c) \<Rightarrow> (k, tg, if pending c then counter_frame tg ts c else c))"

subsection \<open>Lemmas\<close>

lemma frame_callbacks_anims: "fst (frame_callbacks ts as tx) = map (closure_frame ts) as"
  by (induction ts as tx rule: frame_callbacks.induct) (simp_all add: closure_frame_def Let_def)

lemma frame_callbacks_length [simp]: "length (snd (frame_callbacks ts as tx)) = length tx"
  by (induction ts as tx rule: frame_callbacks.induct) (simp_all add: Let_def)

lemma frame_callbacks_other:
  "k \<notin> fst ` set as \<Longrightarrow> snd (frame_callbacks ts as tx) ! k = tx ! k"
  by (induction ts as tx rule: frame_callbacks.induct) (auto simp: Let_def nth_list_update)

lemma frame_callbacks_text:
  "distinct (map fst as) \<Longrightarrow> (k, tg, c) \<in> set as \<Longrightarrow> k < length tx \<Longrightarrow>
   snd (frame_callbacks ts as tx) ! k = (if pending c then shown_text (counter_frame tg ts c) else tx ! k)"
proof (induction ts as tx rule: frame_callbacks.induct)
  case (1 ts tx)
  then show ?case by simp
next
  case (2 ts k' tg' c' as tx)
  show ?case
  proof (cases "k' = k")
    case True
    with 2 have eq: "tg' = tg \<and> c' = c" and nk: "k \<notin> fst ` set as" by (auto simp: image_iff)
    with True "2.prems"(3) eq nk show ?thesis by (simp add: Let_def frame_callbacks_other)
  next
    case False
    with 2 show ?thesis by (simp add: Let_def)
  qed
qed

lemma counter_page_frame_fields [simp]:
  "cp_attr (counter_page_frame ts p) = cp_attr p"
  "cp_anims (counter_page_frame ts p) = map (closure_frame ts) (cp_anims p)"
  "length (cp_text (counter_page_frame ts p)) = length (cp_text p)"
  by (simp_all add: counter_page_frame_def Let_def frame_callbacks_anims)

lemma fst_closure_frame [simp]: "fst \<circ> closure_frame ts = fst"
  by (auto simp: closure_frame_def split: prod.splits)

lemma counter_final_closure_frame:
  "counter_final tg tss (if pending c then counter_frame tg ts c else c) = counter_final tg (ts # tss) c"
  by (simp add: counter_final_Cons counter_final_stopped)


lemma animate_at_fields [simp]:
  "cp_attr (animate_at k p) = cp_attr p" "cp_text (animate_at k p) = cp_text p"
  "cp_anims (animate_at k p) = cp_anims p @
     [(k, js_parse_int (cp_attr p ! k), \<lparr>start_time = None, pending = True, shown_text = cp_text p ! k\<rparr>)]"
  by (simp_all add: animate_at_def animate_counter_def)

lemma fold_animate_at_attr [simp]: "cp_attr (fold animate_at ks p) = cp_attr p"
  by (induction ks arbitrary: p) simp_all

lemma closure_ok_mono:
  "closure_ok p obs a \<Longrightarrow> obs' \<subseteq> obs \<Longrightarrow> cp_attr p' = cp_attr p \<Longrightarrow> cp_text p' = cp_text p \<Longrightarrow>
   closure_ok p' obs' a"
  by (auto simp: closure_ok_def split: prod.splits)

lemma animate_at_inv:
  assumes inv: "cpage_inv (obs, p)" and k: "k \<in> obs"
  shows "cpage_inv (obs - {k}, animate_at k p)"
proof -
  have old: "list_all (closure_ok (animate_at k p) (obs - {k})) (cp_anims p)"
    using inv by (auto simp: cpage_inv_def list_all_iff intro: closure_ok_mono)
  have fresh: "k \<notin> fst ` set (cp_anims p)"
    using inv k by (fastforce simp: cpage_inv_def list_all_iff closure_ok_def)
  have "closure_ok (animate_at k p) (obs - {k})
      (k, js_parse_int (cp_attr p ! k), \<lparr>start_time = None, pending = True, shown_text = cp_text p ! k\<rparr>)"
    using inv k by (auto simp: cpage_inv_def closure_ok_def)
  with old fresh inv show ?thesis by (auto simp: cpage_inv_def)
qed

lemma fold_animate_at_inv:
  "distinct ks \<Longrightarrow> set ks \<subseteq> obs \<Longrightarrow> cpage_inv (obs, p) \<Longrightarrow>
   cpage_inv (obs - set ks, fold animate_at ks p)"
proof (induction ks arbitrary: obs p)
  case Nil
  then show ?case by simp
next
  case (Cons k ks)
  have "cpage_inv (obs - {k}, animate_at k p)" using animate_at_inv Cons.prems by simp
  moreover have "set ks \<subseteq> obs - {k}" using Cons.prems by auto
  ultimately have "cpage_inv (obs - {k} - set ks, fold animate_at ks (animate_at k p))"
    using Cons.IH Cons.prems(1) by simp
  then show ?case by (simp add: Diff_insert2 [symmetric])
qed

lemma counter_batch_inv:
  "cpage_inv (obs, p) \<Longrightarrow> fst ` set b \<subseteq> obs \<Longrightarrow> distinct (hits b) \<Longrightarrow>
   cpage_inv (counter_step (obs, p) (CounterBatch b))"
proof -
  assume inv: "cpage_inv (obs, p)" and b: "fst ` set b \<subseteq> obs" and d: "distinct (hits b)"
  have "set (hits b) \<subseteq> obs" by (rule subset_trans [OF hits_subset b])
  with fold_animate_at_inv [OF d _ inv] show ?thesis by (simp add: observer_callback_fold)
qed

lemma counter_frame_done:
  "\<not> pending (counter_frame tg ts c) \<Longrightarrow> shown_text (counter_frame tg ts c) = js_num_text tg"
  by (auto simp: counter_frame_def Let_def split: if_splits)

lemma counter_frame_start_pos:
  "0 < ts \<Longrightarrow> (case start_time c of None \<Rightarrow> True | Some t \<Rightarrow> 0 < t) \<Longrightarrow>
   (case start_time (counter_frame tg ts c) of None \<Rightarrow> True | Some t \<Rightarrow> 0 < t)"
  by (auto simp: counter_frame_def Let_def split: option.splits)

lemma counter_page_frame_inv:
  assumes inv: "cpage_inv (obs, p)" and ts: "0 < ts"
  shows "cpage_inv (obs, counter_page_frame ts p)"
proof -
  let ?p' = "counter_page_frame ts p"
  have d: "distinct (map fst (cp_anims p))" and l: "length (cp_text p) = length (cp_attr p)"
    using inv by (simp_all add: cpage_inv_def)
  have "closure_ok ?p' obs (closure_frame ts a)" if a: "a \<in> set (cp_anims p)" for a
  proof -
    obtain k tg c where ak: "a = (k, tg, c)" by (cases a) auto
    have ok: "closure_ok p obs (k, tg, c)" using inv a ak by (simp add: cpage_inv_def list_all_iff)
    then have kl: "k < length (cp_text p)" using l by (simp add: closure_ok_def)
    have tx: "cp_text ?p' ! k = (if pending c then shown_text (counter_frame tg ts c) else cp_text p ! k)"
      using frame_callbacks_text [OF d _ kl] a ak by (simp add: counter_page_frame_def Let_def)
    show ?thesis
      using ok tx counter_frame_done [of tg ts c] counter_frame_start_pos [OF ts, of c tg]
      by (auto simp: closure_ok_def closure_frame_def ak)
  qed
  then show ?thesis using inv by (auto simp: cpage_inv_def list_all_iff)
qed

lemma init_counters_inv:
  "cp_anims p0 = [] \<Longrightarrow> length (cp_text p0) = length (cp_attr p0) \<Longrightarrow> cpage_inv (init_counters True p0)"
  by (auto simp: init_counters_def cpage_inv_def observe_all_def)

lemma counter_reach_inv:
  "counter_reach p0 st \<Longrightarrow> cp_anims p0 = [] \<Longrightarrow> length (cp_text p0) = length (cp_attr p0) \<Longrightarrow>
   cpage_inv st \<and> cp_attr (snd st) = cp_attr p0"
proof (induction rule: counter_reach.induct)
  case counter_init
  then show ?case by (simp add: init_counters_inv) (simp add: init_counters_def)
next
  case (counter_batch obs p b)
  then show ?case using counter_batch_inv [of obs p b] by (simp add: observer_callback_fold)
next
  case (counter_frame_step obs p ts)
  then show ?case by (simp add: counter_page_frame_inv)
qed

lemma counter_page_frames_Cons:
  "counter_page_frames (ts # tss) p = counter_page_frames tss (counter_page_frame ts p)"
  by (simp add: counter_page_frames_def)

lemma counter_page_frames_length [simp]:
  "length (cp_text (counter_page_frames tss p)) = length (cp_text p)"
  by (induction tss arbitrary: p) (simp_all add: counter_page_frames_Cons, simp add: counter_page_frames_def)

lemma counter_page_frames_anims:
  "cp_anims (counter_page_frames tss p) = map (\<lambda>(k, tg, c). (k, tg, counter_final tg tss c)) (cp_anims p)"
proof (induction tss arbitrary: p)
  case Nil
  then show ?case by (simp add: counter_page_frames_def counter_final_def split_beta)
next
  case (Cons ts tss)
  then show ?case
    by (simp add: counter_page_frames_def closure_frame_def counter_final_closure_frame split_beta)
qed

lemma counter_page_frames_text:
  "distinct (map fst (cp_anims p)) \<Longrightarrow> (k, tg, c) \<in> set (cp_anims p) \<Longrightarrow> k < length (cp_text p) \<Longrightarrow>
   cp_text p ! k = shown_text c \<Longrightarrow>
   cp_text (counter_page_frames tss p) ! k = shown_text (counter_final tg tss c)"
proof (induction tss arbitrary: p c)
  case Nil
  then show ?case by (simp add: counter_page_frames_def counter_final_def)
next
  case (Cons ts tss)
  let ?p' = "counter_page_frame ts p"
  let ?c' = "if pending c then counter_frame tg ts c else c"
  have d': "distinct (map fst (cp_anims ?p'))" using Cons.prems(1) by simp
  have m': "(k, tg, ?c') \<in> set (cp_anims ?p')"
    using Cons.prems(2) by (force simp: closure_frame_def)
  have l': "k < length (cp_text ?p')" using Cons.prems(3) by simp
  have t': "cp_text ?p' ! k = shown_text ?c'"
    using frame_callbacks_text [OF Cons.prems(1,2,3)] Cons.prems(4)
    by (simp add: counter_page_frame_def Let_def)
  show ?case
    using Cons.IH [OF d' m' l' t'] by (simp add: counter_page_frames_Cons counter_final_closure_frame)
qed

lemma counter_final_completes:
  assumes "pending c" and "case start_time c of None \<Rightarrow> True | Some t \<Rightarrow> 0 < t"
    and "frames_complete tss c"
  shows "\<not> pending (counter_final tg tss c)"
proof (cases "start_time c")
  case None
  with assms(3) obtain ts0 rest where tss: "tss = ts0 # rest" and p0: "0 < ts0"
    and e: "\<exists>ts \<in> set rest. ts0 + 2000 \<le> ts"
    by (auto simp: frames_complete_def list_ex_iff split: list.splits)
  let ?c1 = "counter_frame tg ts0 c"
  have "start_time ?c1 = Some ts0" "pending ?c1"
    using None p0 by (simp_all add: counter_frame_fresh)
  with counter_started_completes [OF _ _ _ e] p0 have "\<not> pending (counter_final tg rest ?c1)" by simp
  with assms(1) tss show ?thesis by (simp add: counter_final_Cons)
next
  case (Some t0)
  with assms have "t0 \<noteq> 0" "\<exists>ts \<in> set tss. t0 + 2000 \<le> ts"
    by (simp_all add: frames_complete_def list_ex_iff)
  with Some assms(1) show ?thesis by (simp add: counter_started_completes)
qed

text \<open>On a consistent page, a closure whose frames let it finish stops, and its
  counter then shows its target.\<close>

lemma closure_final_text:
  assumes inv: "cpage_inv (obs, p)" and a: "(k, tg, c) \<in> set (cp_anims p)" and f: "frames_complete tss c"
  shows "\<not> pending (counter_final tg tss c) \<and>
         cp_text (counter_page_frames tss p) ! k = js_num_text tg"
proof -
  have ok: "closure_ok p obs (k, tg, c)" using inv a by (simp add: cpage_inv_def list_all_iff)
  then have kl: "k < length (cp_text p)" and tx: "cp_text p ! k = shown_text c"
    using inv by (simp_all add: cpage_inv_def closure_ok_def)
  have fin: "\<not> pending (counter_final tg tss c) \<and> shown_text (counter_final tg tss c) = js_num_text tg"
  proof (cases "pending c")
    case True
    have "\<not> pending (counter_final tg tss c)"
      using counter_final_completes [OF True _ f] ok by (simp add: closure_ok_def)
    with counter_final_any_timing [OF True] show ?thesis by simp
  next
    case False
    with ok show ?thesis by (simp add: counter_final_stopped closure_ok_def)
  qed
  have d: "distinct (map fst (cp_anims p))" using inv by (simp add: cpage_inv_def)
  with fin counter_page_frames_text [OF d a kl tx, where tss = tss] show ?thesis by simp
qed

lemma counter_reach_closure:
  "counter_reach p0 st \<Longrightarrow> cp_anims p0 = [] \<Longrightarrow> length (cp_text p0) = length (cp_attr p0) \<Longrightarrow>
   (k, tg, c) \<in> set (cp_anims (snd st)) \<Longrightarrow>
   cpage_inv st \<and> tg = js_parse_int (cp_attr p0 ! k) \<and> k < length (cp_attr p0)"
  using counter_reach_inv [of p0 st]
  by (cases st) (auto simp: cpage_inv_def list_all_iff closure_ok_def)

text \<open>
  C33. In every run of the page from \<open>initCounters\<close> (counters observed, no animation
  yet, one text per counter), a counter whose animation has started shows exactly
  \<open>String(parseInt(data-count))\<close> and requests no further frame once the frames
  delivered reach 2000 ms past its start, however many other counters animate in the
  same frames.
\<close>

theorem counters_show_targets:
  assumes reach: "counter_reach p0 st" and p0: "cp_anims p0 = []" "length (cp_text p0) = length (cp_attr p0)"
    and a: "(k, tg, c) \<in> set (cp_anims (snd st))" and f: "frames_complete tss c"
  shows "(k, tg, counter_final tg tss c) \<in> set (cp_anims (counter_page_frames tss (snd st))) \<and>
         \<not> pending (counter_final tg tss c) \<and>
         cp_text (counter_page_frames tss (snd st)) ! k = js_num_text (js_parse_int (cp_attr p0 ! k))"
proof -
  obtain obs p where st: "st = (obs, p)" by (cases st)
  have inv: "cpage_inv (obs, p)" and tg: "tg = js_parse_int (cp_attr p0 ! k)"
    using counter_reach_closure [OF reach p0 a] st by simp_all
  have "(k, tg, counter_final tg tss c) \<in> set (cp_anims (counter_page_frames tss p))"
    using a st by (force simp: counter_page_frames_anims)
  with closure_final_text [OF inv _ f] a st tg show ?thesis by simp
qed

text \<open>
  C14. The two paths of \<open>initCounters\<close> agree where \<open>data-count\<close> is written
  canonically: when a counter's attribute is the decimal text of an integer \<open>n\<close> with
  \<open>|n| \<le> 2^53\<close> (where \<open>parseInt\<close> and \<open>String\<close> are exact on JavaScript
  numbers), the text its finished animation shows is the text the fallback without
  \<open>IntersectionObserver\<close> (lines 148--153) gives it.  Where the attribute is not
  canonical they differ (\<open>counter_fallback_diverges\<close>: \<open>"08"\<close> against \<open>"8"\<close>).
\<close>

theorem counter_fallback_agrees:
  assumes reach: "counter_reach p0 st" and p0: "cp_anims p0 = []" "length (cp_text p0) = length (cp_attr p0)"
    and a: "(k, tg, c) \<in> set (cp_anims (snd st))" and f: "frames_complete tss c"
    and n: "cp_attr p0 ! k = js_int_str n" "\<bar>n\<bar> \<le> 2 ^ 53"
  shows "cp_text (counter_page_frames tss (snd st)) ! k = cp_text (snd (init_counters False p0)) ! k"
proof -
  obtain obs p where st: "st = (obs, p)" by (cases st)
  have inv: "cpage_inv (obs, p)" and tg: "tg = js_parse_int (cp_attr p0 ! k)"
    and kl: "k < length (cp_attr p0)"
    using counter_reach_closure [OF reach p0 a] st by simp_all
  have "cp_text (counter_page_frames tss p) ! k = js_int_str n"
    using closure_final_text [OF inv _ f] a st tg n(1) by (simp add: js_parse_int_int_str js_num_text_def)
  moreover have "cp_text (snd (init_counters False p0)) ! k = js_int_str n"
    using kl n(1) by (auto simp: init_counters_def counter_fallback_text_def)
  ultimately show ?thesis using st by simp
qed

lemma demo_page_parse:
  "js_parse_int ''50'' = Some 50" "js_parse_int ''120'' = Some 120" "js_parse_int ''8'' = Some 8"
  by (simp_all add: js_parse_int_def js_ws_def is_digit_def digits_val_def digit_val_def)

lemma demo_page_init: "init_counters True demo_page = ({0, 1, 2}, demo_page)"
  by (auto simp: init_counters_def demo_page_def observe_all_def)

lemma demo_page_batch:
  "counter_step ({0, 1, 2}, demo_page) (CounterBatch [(0, True), (1, True), (2, True)]) =
   ({}, demo_page\<lparr>cp_anims := [(0, Some 50, demo_fresh ''0''), (1, Some 120, demo_fresh ''0''),
                               (2, Some 8, demo_fresh ''0'')]\<rparr>)"
  by (simp add: demo_page_def demo_fresh_def animate_at_def animate_counter_def demo_page_parse)

lemma demo_page_reach:
  "counter_reach demo_page ({}, demo_page\<lparr>cp_anims := [(0, Some 50, demo_fresh ''0''),
       (1, Some 120, demo_fresh ''0''), (2, Some 8, demo_fresh ''0'')]\<rparr>)"
proof -
  have r0: "counter_reach demo_page ({0, 1, 2}, demo_page)"
    using counter_reach.counter_init [of demo_page] by (simp only: demo_page_init)
  have "counter_reach demo_page
      (counter_step ({0, 1, 2}, demo_page) (CounterBatch [(0, True), (1, True), (2, True)]))"
    by (rule counter_reach.counter_batch [OF r0]) (simp_all add: hits_def)
  then show ?thesis by (simp only: demo_page_batch)
qed


theorem counters_show_targets_witness:
  "counter_reach demo_page ({}, demo_page\<lparr>cp_anims := [(0, Some 50, demo_fresh ''0''),
       (1, Some 120, demo_fresh ''0''), (2, Some 8, demo_fresh ''0'')]\<rparr>) \<and>
   cp_text (counter_page_frames [100, 2100] (demo_page\<lparr>cp_anims := [(0, Some 50, demo_fresh ''0''),
       (1, Some 120, demo_fresh ''0''), (2, Some 8, demo_fresh ''0'')]\<rparr>)) = [''50'', ''120'', ''8'']"
proof -
  let ?st = "({}, demo_page\<lparr>cp_anims := [(0, Some 50, demo_fresh ''0''),
       (1, Some 120, demo_fresh ''0''), (2, Some 8, demo_fresh ''0'')]\<rparr>) :: counter_st"
  have r: "counter_reach demo_page ?st" by (rule demo_page_reach)
  have p0: "cp_anims demo_page = []" "length (cp_text demo_page) = length (cp_attr demo_page)"
    by (simp_all add: demo_page_def)
  have f: "frames_complete [100, 2100] (demo_fresh ''0'')"
    by (simp add: frames_complete_def demo_fresh_def)
  have t0: "cp_text (counter_page_frames [100, 2100] (snd ?st)) ! 0 = js_num_text (Some 50)"
    using counters_show_targets [OF r p0, of 0 "Some 50" "demo_fresh ''0''"] f
    by (simp add: demo_page_def demo_page_parse)
  have t1: "cp_text (counter_page_frames [100, 2100] (snd ?st)) ! 1 = js_num_text (Some 120)"
    using counters_show_targets [OF r p0, of 1 "Some 120" "demo_fresh ''0''"] f
    by (simp add: demo_page_def demo_page_parse)
  have t2: "cp_text (counter_page_frames [100, 2100] (snd ?st)) ! 2 = js_num_text (Some 8)"
    using counters_show_targets [OF r p0, of 2 "Some 8" "demo_fresh ''0''"] f
    by (simp add: demo_page_def demo_page_parse)
  have s: "js_num_text (Some 50) = ''50''" "js_num_text (Some 120) = ''120''" "js_num_text (Some 8) = ''8''"
    by code_simp+
  have l: "length (cp_text (counter_page_frames [100, 2100] (snd ?st))) = 3"
    by (simp add: demo_page_def)
  have "cp_text (counter_page_frames [100, 2100] (snd ?st)) = [''50'', ''120'', ''8'']"
  proof (rule nth_equalityI)
    show "length (cp_text (counter_page_frames [100, 2100] (snd ?st))) = length [''50'', ''120'', ''8'']"
      using l by simp
    fix i assume "i < length (cp_text (counter_page_frames [100, 2100] (snd ?st)))"
    then have "i = 0 \<or> i = 1 \<or> i = 2" using l by arith
    then show "cp_text (counter_page_frames [100, 2100] (snd ?st)) ! i = [''50'', ''120'', ''8''] ! i"
      using t0 t1 t2 s by auto
  qed
  with r show ?thesis by simp
qed

text \<open>
  C34. The page-level frame loop refines the single-animation model of \<open>Counter\<close>:
  on a consistent page, after any sequence of frames every closure is exactly
  \<open>counter_final\<close> of its own animation over those frames, and every animated counter
  shows its closure's text, so that closures sharing frames do not interfere.
\<close>

theorem counter_page_refines:
  assumes "cpage_inv (obs, p)"
  shows "cp_anims (counter_page_frames tss p) = map (\<lambda>(k, tg, c). (k, tg, counter_final tg tss c)) (cp_anims p) \<and>
         list_all (\<lambda>(k, tg, c). cp_text (counter_page_frames tss p) ! k = shown_text (counter_final tg tss c))
           (cp_anims p)"
proof -
  have d: "distinct (map fst (cp_anims p))" and l: "length (cp_text p) = length (cp_attr p)"
    and ok: "list_all (closure_ok p obs) (cp_anims p)"
    using assms by (simp_all add: cpage_inv_def)
  have "cp_text (counter_page_frames tss p) ! k = shown_text (counter_final tg tss c)"
    if a: "(k, tg, c) \<in> set (cp_anims p)" for k tg c
  proof -
    have "closure_ok p obs (k, tg, c)" using ok a by (simp add: list_all_iff)
    then have "k < length (cp_text p)" "cp_text p ! k = shown_text c" using l by (simp_all add: closure_ok_def)
    then show ?thesis using counter_page_frames_text [OF d a] by simp
  qed
  then show ?thesis by (simp add: counter_page_frames_anims list_all_iff split_beta)
qed

text \<open>
  C35. Every run of the page from \<open>initCounters\<close> keeps one text per counter, gives
  each counter at most one animation, and animates only counters of the page that
  are no longer observed: the one-shot subscription at the level of the page.
\<close>

theorem counter_page_one_animation:
  "counter_reach p0 st \<Longrightarrow> cp_anims p0 = [] \<Longrightarrow> length (cp_text p0) = length (cp_attr p0) \<Longrightarrow>
   length (cp_text (snd st)) = length (cp_attr (snd st)) \<and> distinct (map fst (cp_anims (snd st))) \<and>
   list_all (\<lambda>a. fst a \<notin> fst st \<and> fst a < length (cp_attr p0)) (cp_anims (snd st))"
  using counter_reach_inv [of p0 st]
  by (cases st) (auto simp: cpage_inv_def list_all_iff closure_ok_def split: prod.splits)

theorem counter_page_refines_witness:
  "cpage_inv ({}, demo_page\<lparr>cp_anims := [(0, Some 50, demo_fresh ''0''),
       (1, Some 120, demo_fresh ''0''), (2, Some 8, demo_fresh ''0'')]\<rparr>) \<and>
   cp_anims (counter_page_frames [100, 2100] (demo_page\<lparr>cp_anims := [(0, Some 50, demo_fresh ''0''),
       (1, Some 120, demo_fresh ''0''), (2, Some 8, demo_fresh ''0'')]\<rparr>)) =
     [(0, Some 50, counter_final (Some 50) [100, 2100] (demo_fresh ''0'')),
      (1, Some 120, counter_final (Some 120) [100, 2100] (demo_fresh ''0'')),
      (2, Some 8, counter_final (Some 8) [100, 2100] (demo_fresh ''0''))]"
proof -
  have p0: "cp_anims demo_page = []" "length (cp_text demo_page) = length (cp_attr demo_page)"
    by (simp_all add: demo_page_def)
  have i: "cpage_inv ({}, demo_page\<lparr>cp_anims := [(0, Some 50, demo_fresh ''0''),
       (1, Some 120, demo_fresh ''0''), (2, Some 8, demo_fresh ''0'')]\<rparr>)"
    using counter_reach_inv [OF demo_page_reach p0] by simp
  show ?thesis using counter_page_refines [OF i, of "[100, 2100]"] i by simp
qed

theorem counter_page_one_animation_witness:
  "counter_reach demo_page ({}, demo_page\<lparr>cp_anims := [(0, Some 50, demo_fresh ''0''),
       (1, Some 120, demo_fresh ''0''), (2, Some 8, demo_fresh ''0'')]\<rparr>) \<and>
   cp_anims demo_page = [] \<and> length (cp_text demo_page) = length (cp_attr demo_page) \<and>
   distinct (map fst [(0::nat, Some (50::int), demo_fresh ''0''), (1, Some 120, demo_fresh ''0''),
     (2, Some 8, demo_fresh ''0'')])"
proof -
  have p0: "cp_anims demo_page = []" "length (cp_text demo_page) = length (cp_attr demo_page)"
    by (simp_all add: demo_page_def)
  show ?thesis using counter_page_one_animation [OF demo_page_reach p0] demo_page_reach p0 by simp
qed
theorem counter_fallback_agrees_witness:
  "counter_reach demo_page ({}, demo_page\<lparr>cp_anims := [(0, Some 50, demo_fresh ''0''),
       (1, Some 120, demo_fresh ''0''), (2, Some 8, demo_fresh ''0'')]\<rparr>) \<and>
   cp_attr demo_page ! 0 = js_int_str 50 \<and> \<bar>50::int\<bar> \<le> 2 ^ 53 \<and>
   frames_complete [100, 2100] (demo_fresh ''0'') \<and>
   cp_text (counter_page_frames [100, 2100] (demo_page\<lparr>cp_anims := [(0, Some 50, demo_fresh ''0''),
       (1, Some 120, demo_fresh ''0''), (2, Some 8, demo_fresh ''0'')]\<rparr>)) ! 0 =
     cp_text (snd (init_counters False demo_page)) ! 0"
proof -
  have p0: "cp_anims demo_page = []" "length (cp_text demo_page) = length (cp_attr demo_page)"
    by (simp_all add: demo_page_def)
  have f: "frames_complete [100, 2100] (demo_fresh ''0'')"
    by (simp add: frames_complete_def demo_fresh_def)
  have s: "js_int_str 50 = ''50''" by code_simp
  have n: "cp_attr demo_page ! 0 = js_int_str 50" by (simp add: demo_page_def s)
  show ?thesis
    using counter_fallback_agrees [OF demo_page_reach p0 _ f n, of "Some 50"] demo_page_reach f n
    by simp
qed

end
