(* ===== verification/Page.thy ===== *)
theory Page
  imports Navigation SmoothScroll Reveal CounterPage Particles
begin

text \<open>
  The script as a whole, \<open>src/js/main.js\<close>: \<open>init\<close> (lines 246--252) runs the five
  initialisers in order, and the guard of lines 254--258 runs it either at once or
  from a \<open>DOMContentLoaded\<close> listener.  The page state holds the state of every
  component (each component's own model), how many times \<open>init\<close> ran, whether the
  \<open>DOMContentLoaded\<close> listener is registered, and the hrefs of the links that got the
  smooth-scroll listener.  What the document contains when \<open>init\<close> runs is the
  environment \<open>env\<close>.  The components touch disjoint parts of the DOM; the one place
  they meet is a link of the menu, which has both the closing listener of
  \<open>initNavigation\<close> and, when its href starts with \<open>#\<close>, the listener of
  \<open>initSmoothScroll\<close>.
\<close>

record env =
  has_navbar :: bool
  has_toggle :: bool
  has_links :: bool
  scroll_y :: real
  has_io :: bool
  has_container :: bool
  extra_hrefs :: "string list"
  page_doc :: doc

record page =
  pg_inits :: nat
  pg_waiting :: bool
  pg_nav :: nav_state
  pg_reveal :: reveal_st
  pg_counters :: counter_st
  pg_particles :: pstate
  pg_smooth :: "string list"

text \<open>\<open>init\<close> (lines 246--252).  The anchors \<open>initSmoothScroll\<close> selects are the links
  of the menu (when the page has \<open>#nav-links\<close>), in document order, and the page's
  other links.\<close>

definition init_page :: "env \<Rightarrow> page \<Rightarrow> page" where
  "init_page e pg =
     (let nav = init_navigation (has_navbar e) (has_toggle e) (has_links e) (scroll_y e) (pg_nav pg);
          rv = init_reveal (has_io e) (snd (pg_reveal pg));
          cn = init_counters (has_io e) (snd (pg_counters pg));
          pt = init_particles (has_container e) (pg_particles pg);
          sm = smooth_links ((if has_links e then map href (links (pg_nav pg)) else []) @ extra_hrefs e)
      in pg\<lparr>pg_inits := Suc (pg_inits pg), pg_nav := nav, pg_reveal := rv, pg_counters := cn,
            pg_particles := pt, pg_smooth := sm\<rparr>)"

datatype ready_state = Loading | Interactive | Complete

text \<open>The end of the script (lines 254--258): \<open>init\<close> waits for
  \<open>DOMContentLoaded\<close> while the document is loading, and runs at once otherwise.\<close>

definition run_script :: "ready_state \<Rightarrow> env \<Rightarrow> page \<Rightarrow> page" where
  "run_script rs e pg = (if rs = Loading then pg\<lparr>pg_waiting := True\<rparr> else init_page e pg)"

text \<open>The \<open>DOMContentLoaded\<close> event: the listener, if registered, runs \<open>init\<close>.\<close>

definition dom_content_loaded :: "env \<Rightarrow> page \<Rightarrow> page" where
  "dom_content_loaded e pg = (if pg_waiting pg then init_page e pg else pg)"

text \<open>The document's life from the moment the script runs: \<open>DOMContentLoaded\<close> is
  still ahead in the states \<open>loading\<close> and \<open>interactive\<close> (HTML, "the end" of
  parsing) and fires once.\<close>

definition page_load :: "ready_state \<Rightarrow> env \<Rightarrow> page \<Rightarrow> page" where
  "page_load rs e pg =
     (let pg1 = run_script rs e pg in if rs = Complete then pg1 else dom_content_loaded e pg1)"

text \<open>A click on the \<open>i\<close>-th link of the menu.  The listeners of the link run in
  registration order: the closing listener of \<open>initNavigation\<close> first (line 42), then
  the smooth-scroll listener (line 226) when the link got one.  An exception thrown
  by a listener is reported and does not stop the dispatch, so the outcome of the
  second listener does not affect the first.\<close>

definition menu_link_click :: "doc \<Rightarrow> nat \<Rightarrow> page \<Rightarrow> page \<times> click_outcome" where
  "menu_link_click d i pg =
     (let h = href (links (pg_nav pg) ! i);
          nav = nav_step (pg_nav pg) (LinkClick i)
      in (pg\<lparr>pg_nav := nav\<rparr>, if i < length (links (pg_nav pg)) \<and> h \<in> set (pg_smooth pg)
                              then smooth_click d h else Default))"

text \<open>A page as the browser starts it, before the script: the layout of
  \<open>demo_nav\<close> with the menu closed and nothing wired, and one more menu link to an
  element whose id starts with a digit.\<close>

definition demo_env :: env where
  "demo_env = \<lparr>has_navbar = True, has_toggle = True, has_links = True, scroll_y = 0, has_io = True,
     has_container = True, extra_hrefs = [''#''], page_doc = demo_doc\<rparr>"

definition demo_start :: page where
  "demo_start =
     \<lparr>pg_inits = 0, pg_waiting = False,
      pg_nav = demo_nav\<lparr>scroll_wired := False, menu_wired := False,
                        links := links demo_nav @ [\<lparr>href = ''#2024'', link_cls = {}\<rparr>]\<rparr>,
      pg_reveal = ({}, demo_reveal), pg_counters = ({}, demo_page), pg_particles = demo_particles,
      pg_smooth = []\<rparr>"

subsection \<open>Lemmas and properties\<close>

lemma init_navigation_links [simp]:
  "links (init_navigation nb tg ls y s) = (if nb \<and> \<not> ls then [] else links s)"
  by (simp add: init_navigation_def handle_scroll_def)

lemma init_navigation_menu_wired:
  "menu_wired (init_navigation nb tg ls y s) \<longleftrightarrow> nb \<and> tg \<and> ls"
  by (simp add: init_navigation_def handle_scroll_def)

lemma init_page_fields [simp]:
  "pg_inits (init_page e pg) = Suc (pg_inits pg)"
  "pg_waiting (init_page e pg) = pg_waiting pg"
  "pg_nav (init_page e pg) =
     init_navigation (has_navbar e) (has_toggle e) (has_links e) (scroll_y e) (pg_nav pg)"
  "pg_smooth (init_page e pg) =
     smooth_links ((if has_links e then map href (links (pg_nav pg)) else []) @ extra_hrefs e)"
  by (simp_all add: init_page_def Let_def)

lemma init_page_waiting: "init_page e (pg\<lparr>pg_waiting := w\<rparr>) = (init_page e pg)\<lparr>pg_waiting := w\<rparr>"
  by (simp add: init_page_def Let_def)

text \<open>Whatever the ready state, the script and the \<open>DOMContentLoaded\<close> event still
  ahead run \<open>init\<close> on the page as it was; only the listener registration differs.\<close>

lemma page_load_init:
  "\<not> pg_waiting pg \<Longrightarrow> page_load rs e pg = (init_page e pg)\<lparr>pg_waiting := (rs = Loading)\<rparr>"
  by (cases rs) (simp_all add: page_load_def run_script_def dom_content_loaded_def init_page_waiting)

lemma smooth_links_member:
  "h \<in> set hs \<Longrightarrow> h \<in> set (smooth_links (hs @ xs)) \<longleftrightarrow> take 1 h = ''#''"
  by (auto simp: smooth_links_def)

text \<open>
  C37. Whether the script runs while the document is loading, after it was parsed, or
  once it is complete, \<open>init\<close> runs exactly once by the time \<open>DOMContentLoaded\<close> has
  fired, and every component is initialised from the page as it was: the listener of
  lines 254--256 is registered only in the loading state.
\<close>

theorem init_runs_once:
  "\<not> pg_waiting pg \<Longrightarrow>
   pg_inits (page_load rs e pg) = Suc (pg_inits pg) \<and>
   (pg_waiting (page_load rs e pg) \<longleftrightarrow> rs = Loading) \<and>
   pg_nav (page_load rs e pg) = init_navigation (has_navbar e) (has_toggle e) (has_links e) (scroll_y e) (pg_nav pg) \<and>
   pg_reveal (page_load rs e pg) = init_reveal (has_io e) (snd (pg_reveal pg)) \<and>
   pg_counters (page_load rs e pg) = init_counters (has_io e) (snd (pg_counters pg)) \<and>
   pg_particles (page_load rs e pg) = init_particles (has_container e) (pg_particles pg)"
  by (simp add: page_load_init) (simp add: init_page_def Let_def)

theorem init_runs_once_witness:
  "\<not> pg_waiting demo_start \<and> pg_inits (page_load Loading demo_env demo_start) = 1 \<and>
   pg_waiting (page_load Loading demo_env demo_start) \<and>
   pg_particles (page_load Loading demo_env demo_start) = init_particles True demo_particles"
proof -
  have w: "\<not> pg_waiting demo_start" by (simp add: demo_start_def)
  have "pg_inits demo_start = 0" "has_container demo_env" "pg_particles demo_start = demo_particles"
    by (simp_all add: demo_start_def demo_env_def)
  with init_runs_once [OF w, of Loading demo_env] w show ?thesis by simp
qed

text \<open>
  C38. After the page has loaded with the navbar, the toggle and the link list, a
  click on any link of the menu closes the menu (no \<open>open\<close>, no \<open>active\<close>,
  \<open>aria-expanded="false"\<close>) whatever the smooth-scroll listener of the same link
  does, including throwing for an id that starts with a digit; that listener runs
  exactly when the href starts with \<open>#\<close>.
\<close>

theorem menu_click_closes:
  assumes "has_navbar e" "has_toggle e" "has_links e" "\<not> pg_waiting pg"
    and "i < length (links (pg_nav pg))"
  shows "''open'' \<notin> menu_cls (pg_nav (fst (menu_link_click d i (page_load rs e pg)))) \<and>
         ''active'' \<notin> toggle_cls (pg_nav (fst (menu_link_click d i (page_load rs e pg)))) \<and>
         toggle_aria (pg_nav (fst (menu_link_click d i (page_load rs e pg)))) = ''false'' \<and>
         snd (menu_link_click d i (page_load rs e pg)) =
           (if take 1 (href (links (pg_nav pg) ! i)) = ''#'' then smooth_click d (href (links (pg_nav pg) ! i))
            else Default)"
proof -
  let ?pg = "page_load rs e pg"
  have eq: "?pg = (init_page e pg)\<lparr>pg_waiting := (rs = Loading)\<rparr>"
    using page_load_init [OF assms(4)] .
  have nav: "pg_nav ?pg = init_navigation (has_navbar e) (has_toggle e) (has_links e) (scroll_y e) (pg_nav pg)"
    using eq by simp
  have w: "menu_wired (pg_nav ?pg)" using nav assms(1-3) by (simp add: init_navigation_menu_wired)
  have l: "links (pg_nav ?pg) = links (pg_nav pg)" using nav assms(3) by simp
  have s: "href (links (pg_nav pg) ! i) \<in> set (pg_smooth ?pg) \<longleftrightarrow> take 1 (href (links (pg_nav pg) ! i)) = ''#''"
    using eq assms(3,5) smooth_links_member [of "href (links (pg_nav pg) ! i)"] by simp
  show ?thesis
    using w l s assms(5) by (simp add: menu_link_click_def Let_def link_click_close_def dom_simps)
qed

lemma demo_start_link2: "href (links (pg_nav demo_start) ! 2) = ''#2024''"
  by (simp add: demo_start_def demo_nav_def)

lemma smooth_click_2024: "smooth_click demo_doc ''#2024'' = Thrown"
  by code_simp

theorem menu_click_closes_witness:
  "has_navbar demo_env \<and> has_toggle demo_env \<and> has_links demo_env \<and> \<not> pg_waiting demo_start \<and>
   2 < length (links (pg_nav demo_start)) \<and>
   ''open'' \<notin> menu_cls (pg_nav (fst (menu_link_click demo_doc 2 (page_load Loading demo_env demo_start)))) \<and>
   toggle_aria (pg_nav (fst (menu_link_click demo_doc 2 (page_load Loading demo_env demo_start)))) = ''false'' \<and>
   snd (menu_link_click demo_doc 2 (page_load Loading demo_env demo_start)) = Thrown"
proof -
  have h: "has_navbar demo_env" "has_toggle demo_env" "has_links demo_env" by (simp_all add: demo_env_def)
  have w: "\<not> pg_waiting demo_start" by (simp add: demo_start_def)
  have l: "2 < length (links (pg_nav demo_start))" by (simp add: demo_start_def demo_nav_def)
  show ?thesis
    using menu_click_closes [OF h w l, of demo_doc Loading] h w l demo_start_link2 smooth_click_2024
    by simp
qed
end
