(* ===== verification/Spec2Isabelle.thy ===== *)
theory Spec2Isabelle
  imports Navigation Counter Observer SmoothScroll Validator ParticleLiveness Page
begin

text \<open>
  \<^bold>\<open>A verification development of the profile page's interactivity script.\<close>

  The repository renders one static profile page.  Its only program with behaviour is
  \<open>src/js/main.js\<close>, an immediately invoked function that, once the document is
  ready (\<open>init\<close> and its guard, lines 246--258), installs five behaviours on the DOM:
  the navigation controller (\<open>initNavigation\<close>, lines 12--73), the reveal-on-scroll
  animator (\<open>initScrollAnimations\<close>, lines 78--113), the counter animator
  (\<open>initCounters\<close>, lines 118--170), the particle spawner (\<open>initParticles\<close>, lines
  175--218) and smooth anchor scrolling (\<open>initSmoothScroll\<close>, lines 223--241).  The
  behaviours write disjoint parts of the DOM and react to their own browser events
  (scroll, click, intersection callbacks, animation frames, timers); they meet only
  on the links of the menu, which carry a listener of the navigation controller and
  one of smooth scrolling.  \<open>src/tests/validate-html.js\<close> checks the page's markup
  by regular expressions and exits with 0 or 1.

  \<^bold>\<open>Theories.\<close>
  \<^item> \<open>Prelude\<close>: the platform primitives the code calls: \<open>classList\<close> add, remove and
    toggle on a set of class names; \<open>String(b)\<close>; \<open>String(n)\<close> for integral
    numbers (\<open>js_int_str\<close>) and \<open>parseInt(s, 10)\<close> (\<open>js_parse_int\<close>, \<open>None\<close> for
    \<open>NaN\<close>), with their round trip.
  \<^item> \<open>Navigation\<close>: \<open>initNavigation\<close>.  \<open>nav_state\<close> holds the classes of the navbar,
    the toggle, the link list and each link, \<open>aria-expanded\<close>, the sections and their
    offsets, and which listeners were installed; one definition per listener
    (\<open>handle_scroll\<close>, \<open>toggle_click\<close>, \<open>link_click_close\<close>, \<open>highlight_nav\<close> with
    its loops), \<open>init_navigation\<close>, the dispatcher \<open>nav_step\<close> and the inductive
    reachability relation \<open>nav_reach\<close>.
  \<^item> \<open>Observer\<close>: the one-shot \<open>IntersectionObserver\<close> callback, stated once over the
    component's effect and instantiated by the reveal and counter animators, with
    the browser's delivery guarantee \<open>deliverable\<close>.
  \<^item> \<open>Counter\<close>: one \<open>animateCounter\<close> closure (\<open>counter_anim\<close>: \<open>startTime\<close>, the
    pending frame, the text) and its \<open>step(timestamp)\<close> (\<open>counter_frame\<close>), run over
    the frames the browser delivers (\<open>counter_frames\<close>).
  \<^item> \<open>CounterPage\<close>: \<open>initCounters\<close> on a page: the counters, the observer whose effect
    \<open>animate_at\<close> creates a closure, and frames that run every requested callback in
    request order (\<open>frame_callbacks\<close>); \<open>counter_reach\<close> is the run relation and
    \<open>cpage_inv\<close> its invariant.
  \<^item> \<open>Reveal\<close>: \<open>initScrollAnimations\<close>: the observer's effect schedules a reveal
    timer with the parsed \<open>data-delay\<close> converted by \<open>ToInt32\<close> (a 32-bit \<open>word\<close>);
    time advances and due timers add \<open>visible\<close>.
  \<^item> \<open>SmoothScroll\<close>: the click listener of \<open>initSmoothScroll\<close>, with the CSS parse of
    \<open>querySelector\<close> for \<open>#\<close> followed by name characters (an invalid identifier
    throws).
  \<^item> \<open>Particles\<close> and \<open>ParticleLiveness\<close>: \<open>initParticles\<close> with the browser's timer
    queue (ordered by due time and set order), \<open>createParticle\<close> with
    \<open>Math.random\<close> as an input sequence, the removal callback, and the event-loop
    turn \<open>pstep\<close>; the liveness proof uses a well-founded measure on the timers due
    before a removal.
  \<^item> \<open>Validator\<close>: \<open>validate-html.js\<close>: the missing-file exit, the sixteen checks with
    a backtracking matcher for the regular expressions they use, the output lines and
    the exit code.
  \<^item> \<open>Page\<close>: \<open>init\<close>, the \<open>readyState\<close> guard and \<open>DOMContentLoaded\<close>, on a page state
    that holds every component's model; a click on a menu link dispatched to both of
    its listeners.

  \<^bold>\<open>What is proved.\<close>
  \<^item> Counters (C1--C3, C9, C14, C33--C36): an animation ends on its exact target once a
    frame 2000 ms after its start arrives, shows non-decreasing values between 0 and the
    target, restarts its clock after a first frame at time 0, ends on the text the
    fallback without \<open>IntersectionObserver\<close> shows when \<open>data-count\<close> is canonical
    and at most \<open>2^53\<close> in size, and runs exactly
    \<open>min n (\<lceil>2000/d\<rceil> + 1)\<close> frames at a steady interval \<open>d\<close>; on a whole page
    every started counter ends on its target whatever other counters share the frames,
    the page loop refines the single-closure model, and each counter is animated at
    most once.
  \<^item> Navigation (C4--C7, C10--C12): menu, toggle and \<open>aria-expanded\<close> agree in every
    reachable state; \<open>scrolled\<close> exactly above 50 pixels; the active link is the one of
    the last section holding \<open>scrollY + 200\<close>, unique for distinct targets, stale when
    no section holds it; toggling twice restores the state; scrolling is idempotent.
  \<^item> Observer (C8, C13): each element fires at most once, and fired elements are no
    longer observed.
  \<^item> Smooth scrolling (C15--C17): scroll to 80 pixels above the target; default
    behaviour for \<open>#\<close> and missing targets; a \<open>SyntaxError\<close> for ids that start with a
    digit.
  \<^item> Validator (C18--C21): exit code, one line per check in order, the missing awards
    section, and the summary line with the number of failing checks.
  \<^item> Reveal (C22--C26): every element is in exactly one phase (observed, waiting,
    visible) in every reachable state; it becomes visible at report time plus its
    delay; the fallback reveals all; the timer the callback sets waits exactly the
    \<open>data-delay\<close> written, below \<open>2^31\<close>, and the unchecked value wraps modulo
    \<open>2^32\<close> (negative delays reveal at once, \<open>2^32 + m\<close> after \<open>m\<close> ms).
  \<^item> Particles (C27--C32): the queue and container invariant from \<open>initParticles\<close>;
    each particle removed exactly once, 10 to 25 seconds after creation, with
    attributes in the specified ranges; the initial schedule; and no leak: every
    particle is eventually removed.
  \<^item> Page (C37, C38): \<open>init\<close> runs exactly once in every ready state; a menu link click
    closes the menu even when its smooth-scroll listener throws.

  \<^bold>\<open>Bounds and fuel.\<close>  No definition uses fuel: loops are structural recursion over
  the events, frames, timers or batches the browser delivers, which are inputs.  The
  endless \<open>setInterval\<close> is a step function iterated \<open>n\<close> times (\<open>prun\<close>), and the
  liveness results quantify over \<open>n\<close>.  Integers that matter at their width are words:
  the \<open>setTimeout\<close> delay of the reveal animator is converted as a 32-bit signed word.

  \<^bold>\<open>Not modelled.\<close>  JavaScript numbers are exact reals (the rounding of
  \<open>Math.pow\<close> and of \<open>Math.random() * n\<close> is not modelled), and \<open>parseInt\<close>
  and \<open>String\<close> are exact on unbounded integers: targets beyond \<open>2^53\<close> (which a
  double rounds) and beyond \<open>10^21\<close> (which \<open>String\<close> prints in exponent form)
  are outside the model, and the claims that compare texts are restricted to them.  The page layout is fixed
  during a run.  Style strings of particles other than the colour, which nothing reads
  back, and the \<open>threshold\<close> and \<open>rootMargin\<close> of the observers, which decide only
  when the browser reports an entry, are not modelled: entries are inputs.  The test
  suite \<open>src/tests/profile.test.js\<close> asserts facts about \<open>index.html\<close> and
  \<open>style.css\<close>, which are not part of \<open>src/\<close>, and has no behaviour of its own.
\<close>

end
